theory Spec2Isabelle
  imports Main "HOL-Library.Word" "HOL-Library.Monad_Syntax"
begin

unbundle bit_operations_syntax

section \<open>Bytes and panics\<close>

text \<open>
  The PNG encoder of \<^verbatim>\<open>png/writer.go\<close>. Bytes are 8-bit words, byte slices are lists.
  Go's \<^verbatim>\<open>int\<close> is modelled as \<open>int\<close>: the sums and lengths of the encoder stay far
  below \<open>2^63\<close>. A run-time panic of Go (an index or a slice bound out of range) is the
  value \<open>None\<close> of an option type: every function that can panic returns an option.
\<close>

type_synonym u8 = "8 word"
type_synonym bytes = "u8 list"

text \<open>\<^verbatim>\<open>abs8\<close>: the absolute value of a byte interpreted as a signed int8.\<close>

definition abs8 :: "u8 \<Rightarrow> int" where
  "abs8 d = (if d < 128 then uint d else 256 - uint d)"

section \<open>The filter selector\<close>

text \<open>
  The filter types in their enumeration order (ftNone, ftSub, ftUp, ftAverage, ftPaeth),
  as the comment of \<^verbatim>\<open>filter\<close> lists them; the number of a filter is also the index of
  its row buffer in \<^verbatim>\<open>cr\<close>.
\<close>

definition ftNone :: nat where "ftNone = 0"
definition ftSub :: nat where "ftSub = 1"
definition ftUp :: nat where "ftUp = 2"
definition ftAverage :: nat where "ftAverage = 3"
definition ftPaeth :: nat where "ftPaeth = 4"
definition nFilter :: nat where "nFilter = 5"

text \<open>
  \<^verbatim>\<open>cr [nFilter][]uint8\<close>: the five row buffers, one per filter type. Each buffer is a
  slice of its own (\<^verbatim>\<open>writeImage\<close> allocates them separately), so the buffers are values
  here and a write to one never shows in another.
\<close>

record rows =
  cr0 :: bytes
  cr1 :: bytes
  cr2 :: bytes
  cr3 :: bytes
  cr4 :: bytes

definition cr_at :: "rows \<Rightarrow> nat \<Rightarrow> bytes" where
  "cr_at cr f =
     (if f = 0 then cr0 cr else if f = 1 then cr1 cr else if f = 2 then cr2 cr
      else if f = 3 then cr3 cr else cr4 cr)"

text \<open>A checked read \<^verbatim>\<open>xs[i]\<close>: out of range is a panic.\<close>

definition rd :: "bytes \<Rightarrow> nat \<Rightarrow> u8 option" where
  "rd xs i = (if i < length xs then Some (xs ! i) else None)"

text \<open>
  The byte each filter stores at index \<open>i\<close>, with the reads it makes. The loops that use
  \<open>bpp\<close> start at \<open>i = bpp\<close>, so \<open>i - bpp\<close> is never negative there.
\<close>

definition up_byte :: "bytes \<Rightarrow> bytes \<Rightarrow> nat \<Rightarrow> u8 option" where
  "up_byte cdat0 pdat i = do { c \<leftarrow> rd cdat0 i; p \<leftarrow> rd pdat i; Some (c - p) }"

definition paeth_byte :: "(u8 \<Rightarrow> u8 \<Rightarrow> u8 \<Rightarrow> u8) \<Rightarrow> bytes \<Rightarrow> bytes \<Rightarrow> nat \<Rightarrow> nat \<Rightarrow> u8 option" where
  "paeth_byte paeth cdat0 pdat bpp i =
     do { c \<leftarrow> rd cdat0 i; a \<leftarrow> rd cdat0 (i - bpp); b \<leftarrow> rd pdat i; c' \<leftarrow> rd pdat (i - bpp);
          Some (c - paeth a b c') }"

definition sub_byte :: "bytes \<Rightarrow> nat \<Rightarrow> nat \<Rightarrow> u8 option" where
  "sub_byte cdat0 bpp i = do { c \<leftarrow> rd cdat0 i; a \<leftarrow> rd cdat0 (i - bpp); Some (c - a) }"

definition avg_byte0 :: "bytes \<Rightarrow> bytes \<Rightarrow> nat \<Rightarrow> u8 option" where
  "avg_byte0 cdat0 pdat i = do { c \<leftarrow> rd cdat0 i; p \<leftarrow> rd pdat i; Some (c - p div 2) }"

text \<open>
  \<^verbatim>\<open>cdat0[i] - uint8((int(cdat0[i-bpp])+int(pdat[i]))/2)\<close>: the two bytes are added as
  ints, the total (at most 510) is halved, and the half is cast back to a byte.
\<close>

definition avg_byte :: "bytes \<Rightarrow> bytes \<Rightarrow> nat \<Rightarrow> nat \<Rightarrow> u8 option" where
  "avg_byte cdat0 pdat bpp i =
     do { c \<leftarrow> rd cdat0 i; a \<leftarrow> rd cdat0 (i - bpp); p \<leftarrow> rd pdat i;
          Some (c - word_of_int ((uint a + uint p) div 2)) }"

text \<open>
  \<^verbatim>\<open>for ; i < n; i++ { dst[i] = f(i); sum += abs8(dst[i]) }\<close>: the loops of
  \<^verbatim>\<open>filter\<close> that never break (the up filter, and the first \<open>bpp\<close> bytes of the Paeth,
  sub and average filters).
\<close>

function for_sum :: "(nat \<Rightarrow> u8 option) \<Rightarrow> nat \<Rightarrow> nat \<Rightarrow> bytes \<Rightarrow> int \<Rightarrow> (bytes \<times> int) option" where
  "for_sum f i n dst sm =
     (if i < n then
        (case f i of
           None \<Rightarrow> None
         | Some v \<Rightarrow>
             if i < length dst then for_sum f (Suc i) n (dst[i := v]) (sm + abs8 v)
             else None)
      else Some (dst, sm))"
  by pat_completeness auto
termination
  by (relation "measure (\<lambda>(f, i, n, dst, sm). n - i)") auto

text \<open>
  The same loop with \<^verbatim>\<open>if sum >= best { break }\<close> after each byte: the bytes from
  \<open>bpp\<close> on of the Paeth, sub and average filters.
\<close>

function for_sum_until :: "(nat \<Rightarrow> u8 option) \<Rightarrow> nat \<Rightarrow> nat \<Rightarrow> bytes \<Rightarrow> int \<Rightarrow> int \<Rightarrow> (bytes \<times> int) option" where
  "for_sum_until f i n dst sm best =
     (if i < n then
        (case f i of
           None \<Rightarrow> None
         | Some v \<Rightarrow>
             if i < length dst then
               (if sm + abs8 v \<ge> best then Some (dst[i := v], sm + abs8 v)
                else for_sum_until f (Suc i) n (dst[i := v]) (sm + abs8 v) best)
             else None)
      else Some (dst, sm))"
  by pat_completeness auto
termination
  by (relation "measure (\<lambda>(f, i, n, dst, sm, best). n - i)") auto

text \<open>The loop of the none filter: it only reads \<^verbatim>\<open>cdat0\<close>, and breaks the same way.\<close>

function none_sum_until :: "bytes \<Rightarrow> nat \<Rightarrow> nat \<Rightarrow> int \<Rightarrow> int \<Rightarrow> int option" where
  "none_sum_until cdat0 i n sm best =
     (if i < n then
        (case rd cdat0 i of
           None \<Rightarrow> None
         | Some v \<Rightarrow>
             if sm + abs8 v \<ge> best then Some (sm + abs8 v)
             else none_sum_until cdat0 (Suc i) n (sm + abs8 v) best)
      else Some sm)"
  by pat_completeness auto
termination
  by (relation "measure (\<lambda>(cdat0, i, n, sm, best). n - i)") auto

text \<open>
  \<^verbatim>\<open>filter(cr, pr, bpp)\<close>: chooses the filter for the current row and applies it. The
  result is the index of the filter and the row buffers as the call leaves them.
  \<^verbatim>\<open>paeth\<close> (the Paeth predictor of \<^verbatim>\<open>paeth.go\<close>, a file that is not among the sources)
  is a parameter. Slicing an empty buffer with \<^verbatim>\<open>[1:]\<close> panics. A negative \<open>bpp\<close> makes the
  second Paeth loop start at a negative index, which panics at its first byte.
\<close>

definition filter_png :: "(u8 \<Rightarrow> u8 \<Rightarrow> u8 \<Rightarrow> u8) \<Rightarrow> rows \<Rightarrow> bytes \<Rightarrow> int \<Rightarrow> (nat \<times> rows) option" where
  "filter_png paeth cr pr bpp =
     (if cr0 cr = [] \<or> cr1 cr = [] \<or> cr2 cr = [] \<or> cr3 cr = [] \<or> cr4 cr = [] \<or> pr = []
      then None
      else
        let cdat0 = tl (cr0 cr); cdat1 = tl (cr1 cr); cdat2 = tl (cr2 cr);
            cdat3 = tl (cr3 cr); cdat4 = tl (cr4 cr); pdat = tl pr;
            n = length cdat0
        in do {
          \<comment> \<open>The up filter.\<close>
          (cdat2, sm) \<leftarrow> for_sum (up_byte cdat0 pdat) 0 n cdat2 0;
          let best = sm;
          let ft = ftUp;
          \<comment> \<open>The Paeth filter.\<close>
          (cdat4, sm) \<leftarrow> (if bpp < 0 then None else for_sum (up_byte cdat0 pdat) 0 (nat bpp) cdat4 0);
          (cdat4, sm) \<leftarrow> for_sum_until (paeth_byte paeth cdat0 pdat (nat bpp)) (nat bpp) n cdat4 sm best;
          let (best, ft) = (if sm < best then (sm, ftPaeth) else (best, ft));
          \<comment> \<open>The none filter.\<close>
          sm \<leftarrow> none_sum_until cdat0 0 n 0 best;
          let (best, ft) = (if sm < best then (sm, ftNone) else (best, ft));
          \<comment> \<open>The sub filter.\<close>
          (cdat1, sm) \<leftarrow> for_sum (rd cdat0) 0 (nat bpp) cdat1 0;
          (cdat1, sm) \<leftarrow> for_sum_until (sub_byte cdat0 (nat bpp)) (nat bpp) n cdat1 sm best;
          let (best, ft) = (if sm < best then (sm, ftSub) else (best, ft));
          \<comment> \<open>The average filter.\<close>
          (cdat3, sm) \<leftarrow> for_sum (avg_byte0 cdat0 pdat) 0 (nat bpp) cdat3 0;
          (cdat3, sm) \<leftarrow> for_sum_until (avg_byte cdat0 pdat (nat bpp)) (nat bpp) n cdat3 sm best;
          let ft = (if sm < best then ftAverage else ft);
          Some (ft,
                cr\<lparr>cr1 := hd (cr1 cr) # cdat1, cr2 := hd (cr2 cr) # cdat2,
                   cr3 := hd (cr3 cr) # cdat3, cr4 := hd (cr4 cr) # cdat4\<rparr>)
        })"

text \<open>
  Modelled from the spec: the helper \<^verbatim>\<open>paeth\<close> is declared outside the sources. The spec:
  \<^verbatim>\<open>paeth(a,b,c)\<close> returns whichever of a, b, c is closest to \<^verbatim>\<open>a+b-c\<close>, ties resolved
  in the order a, b, c. It instantiates the parameter of \<open>filter_png\<close> on concrete rows.
\<close>

definition paeth_spec :: "u8 \<Rightarrow> u8 \<Rightarrow> u8 \<Rightarrow> u8" where
  "paeth_spec a b c =
     (let p = uint a + uint b - uint c;
          pa = \<bar>p - uint a\<bar>; pb = \<bar>p - uint b\<bar>; pc = \<bar>p - uint c\<bar>
      in if pa \<le> pb \<and> pa \<le> pc then a else if pb \<le> pc then b else c)"

subsection \<open>The exhaustive selection, as the specification words it\<close>

text \<open>
  Each filter applied to the whole row. \<open>cur\<close> and \<open>prev\<close> are the data bytes of the
  current and of the previous row (without the tag byte); \<^verbatim>\<open>cur[i-bpp]\<close> counts as 0 for
  \<open>i < bpp\<close>, where the Paeth predictor of (0, b, 0) is b.
\<close>

definition up_row :: "bytes \<Rightarrow> bytes \<Rightarrow> bytes" where
  "up_row cur prev = map (\<lambda>i. cur ! i - prev ! i) [0..<length cur]"

definition sub_row :: "nat \<Rightarrow> bytes \<Rightarrow> bytes" where
  "sub_row bpp cur =
     map (\<lambda>i. if i < bpp then cur ! i else cur ! i - cur ! (i - bpp)) [0..<length cur]"

text \<open>The average filter as the code computes it: the sum of the two bytes does not wrap.\<close>

definition average_row :: "nat \<Rightarrow> bytes \<Rightarrow> bytes \<Rightarrow> bytes" where
  "average_row bpp cur prev =
     map (\<lambda>i. if i < bpp then cur ! i - prev ! i div 2
              else cur ! i - word_of_int ((uint (cur ! (i - bpp)) + uint (prev ! i)) div 2))
         [0..<length cur]"

text \<open>
  The average filter as the specification words it: \<^verbatim>\<open>out[i] = cur[i] - floor((cur[i-bpp]
  + prev[i]) / 2)\<close> with all arithmetic modulo 256 on unsigned bytes, so that the sum is a
  byte before it is halved.
\<close>

definition average_row_mod256 :: "nat \<Rightarrow> bytes \<Rightarrow> bytes \<Rightarrow> bytes" where
  "average_row_mod256 bpp cur prev =
     map (\<lambda>i. if i < bpp then cur ! i - prev ! i div 2
              else cur ! i - (cur ! (i - bpp) + prev ! i) div 2)
         [0..<length cur]"

definition paeth_row :: "(u8 \<Rightarrow> u8 \<Rightarrow> u8 \<Rightarrow> u8) \<Rightarrow> nat \<Rightarrow> bytes \<Rightarrow> bytes \<Rightarrow> bytes" where
  "paeth_row paeth bpp cur prev =
     map (\<lambda>i. if i < bpp then cur ! i - prev ! i
              else cur ! i - paeth (cur ! (i - bpp)) (prev ! i) (prev ! (i - bpp)))
         [0..<length cur]"

definition filtered_row :: "(u8 \<Rightarrow> u8 \<Rightarrow> u8 \<Rightarrow> u8) \<Rightarrow> nat \<Rightarrow> bytes \<Rightarrow> bytes \<Rightarrow> nat \<Rightarrow> bytes" where
  "filtered_row paeth bpp cur prev f =
     (if f = ftSub then sub_row bpp cur
      else if f = ftUp then up_row cur prev
      else if f = ftAverage then average_row bpp cur prev
      else if f = ftPaeth then paeth_row paeth bpp cur prev
      else cur)"

text \<open>The sum of \<^verbatim>\<open>abs8\<close> over a row.\<close>

definition row_sum :: "bytes \<Rightarrow> int" where
  "row_sum row = sum_list (map abs8 row)"

text \<open>The fixed priority order: Up, Paeth, None, Sub, Average.\<close>

definition filter_order :: "nat list" where
  "filter_order = [ftUp, ftPaeth, ftNone, ftSub, ftAverage]"

text \<open>After each candidate, keep the new candidate only if its sum is strictly less.\<close>

fun keep_best :: "(nat \<Rightarrow> int) \<Rightarrow> nat list \<Rightarrow> nat \<Rightarrow> nat" where
  "keep_best cost [] best = best"
| "keep_best cost (f # fs) best = keep_best cost fs (if cost f < cost best then f else best)"

definition exhaustive_filter :: "(u8 \<Rightarrow> u8 \<Rightarrow> u8 \<Rightarrow> u8) \<Rightarrow> nat \<Rightarrow> bytes \<Rightarrow> bytes \<Rightarrow> nat" where
  "exhaustive_filter paeth bpp cur prev =
     keep_best (\<lambda>f. row_sum (filtered_row paeth bpp cur prev f)) (tl filter_order) (hd filter_order)"

text \<open>
  The row buffers as \<^verbatim>\<open>writeImage\<close> hands them to \<^verbatim>\<open>filter\<close>: the five buffers and
  the previous row have the same length, one tag byte and \<open>n\<close> data bytes, and the tag byte
  of buffer \<open>i\<close> is \<open>i\<close> (\<^verbatim>\<open>e.cr[i][0] = uint8(i)\<close>).
\<close>

definition rows_ok :: "rows \<Rightarrow> bytes \<Rightarrow> nat \<Rightarrow> bool" where
  "rows_ok crs pr n \<longleftrightarrow>
     length (cr0 crs) = Suc n \<and> length (cr1 crs) = Suc n \<and> length (cr2 crs) = Suc n \<and>
     length (cr3 crs) = Suc n \<and> length (cr4 crs) = Suc n \<and> length pr = Suc n"

definition tagged :: "rows \<Rightarrow> bool" where
  "tagged crs \<longleftrightarrow>
     hd (cr0 crs) = 0 \<and> hd (cr1 crs) = 1 \<and> hd (cr2 crs) = 2 \<and> hd (cr3 crs) = 3 \<and>
     hd (cr4 crs) = 4"

section \<open>Errors, the output sink and the external collaborators\<close>

text \<open>
  The errors of an encode call. \<^verbatim>\<open>FormatError\<close> and \<^verbatim>\<open>UnsupportedError\<close> are string
  types in Go; the message is kept here by its parts (\<^verbatim>\<open>"invalid image size: WxH"\<close>,
  \<^verbatim>\<open>"bad palette length: N"\<close>, \<^verbatim>\<open>name + " chunk is too large: " + N\<close>). The two
  \<^verbatim>\<open>fmt.Errorf\<close> errors of the option loop have a constructor each. \<open>External n\<close> is
  an error value that comes from outside this file: from the output sink, from the
  compressor, from an encode hook of the metadata or from \<^verbatim>\<open>metadata.validate()\<close>.
  These collaborators name their errors by a number \<open>n\<close>; they never hand out one of
  the encoder's own error values.
\<close>

datatype format_error = InvalidImageSize int int | BadPaletteLength nat

datatype error =
    FormatError format_error
  | UnsupportedError string nat
  | MultipleMetadata
  | UnknownWriteOption
  | External nat

text \<open>
  The output sink, an \<^verbatim>\<open>io.Writer\<close>. \<open>written\<close> lists the bytes each \<^verbatim>\<open>Write\<close> call
  has stored so far. \<open>policy\<close> decides the next call from that history and the bytes
  offered: \<open>None\<close> accepts them all, \<open>Some (k, x)\<close> stores the first \<open>k\<close> bytes and returns
  the error \<open>External x\<close>.
\<close>

record sink =
  written :: "bytes list"
  policy :: "bytes list \<Rightarrow> bytes \<Rightarrow> (nat \<times> nat) option"

definition sink_write :: "sink \<Rightarrow> bytes \<Rightarrow> sink \<times> error option" where
  "sink_write s p =
     (case policy s (written s) p of
        None \<Rightarrow> (s\<lparr>written := written s @ [p]\<rparr>, None)
      | Some (k, x) \<Rightarrow> (s\<lparr>written := written s @ [take k p]\<rparr>, Some (External x)))"

text \<open>The byte stream the sink holds, and a sink that accepts every write.\<close>

definition sink_bytes :: "sink \<Rightarrow> bytes" where
  "sink_bytes s = concat (written s)"

definition accepting :: "sink \<Rightarrow> bool" where
  "accepting s \<longleftrightarrow> policy s = (\<lambda>h p. None)"

text \<open>
  What the encoder consumes as black boxes, and the constants it uses that are declared
  in files outside the sources:
  \<^item> \<open>crc32_ieee\<close>: \<^verbatim>\<open>hash/crc32\<close>, the IEEE checksum of a byte sequence;
  \<^item> \<open>zlib_stream level input\<close>: what \<^verbatim>\<open>pngCompress\<close> gets from a zlib writer of that
    level fed with \<open>input\<close> and closed, the compressed bytes or the writer's error;
  \<^item> \<open>zlib_writes level rows\<close>: the image data path of \<^verbatim>\<open>writeIDATs\<close>, a zlib writer of
    that level over a 32 KiB \<^verbatim>\<open>bufio.Writer\<close> over the encoder. Fed with the rows and
    closed and flushed, it hands these byte slices, in this order, to the encoder's
    \<^verbatim>\<open>Write\<close>;
  \<^item> \<open>ext_paeth\<close>: the Paeth predictor \<^verbatim>\<open>paeth\<close>;
  \<^item> the colour type bytes \<^verbatim>\<open>ctGrayscale\<close>, \<^verbatim>\<open>ctTrueColor\<close>, \<^verbatim>\<open>ctPaletted\<close>,
    \<^verbatim>\<open>ctTrueColorAlpha\<close> and the key \<^verbatim>\<open>xmpTextKey\<close>.
\<close>

record extern =
  crc32_ieee :: "bytes \<Rightarrow> 32 word"
  zlib_stream :: "int \<Rightarrow> bytes \<Rightarrow> nat + bytes"
  zlib_writes :: "int \<Rightarrow> bytes list \<Rightarrow> bytes list"
  ext_paeth :: "u8 \<Rightarrow> u8 \<Rightarrow> u8 \<Rightarrow> u8"
  ctGrayscale :: u8
  ctTrueColor :: u8
  ctPaletted :: u8
  ctTrueColorAlpha :: u8
  xmpTextKey :: bytes

text \<open>
  Modelled from the spec: \<^verbatim>\<open>pngHeader\<close> is declared outside the sources. The spec: the
  stream starts with the 8-byte PNG signature (of ISO/IEC 15948).
\<close>

definition pngHeader :: bytes where
  "pngHeader = [137, 80, 78, 71, 13, 10, 26, 10]"

text \<open>\<^verbatim>\<open>binary.BigEndian.PutUint32\<close> and \<^verbatim>\<open>PutUint16\<close>: the bytes they store.\<close>

definition be32 :: "32 word \<Rightarrow> bytes" where
  "be32 v = [ucast (drop_bit 24 v), ucast (drop_bit 16 v), ucast (drop_bit 8 v), ucast v]"

definition be16 :: "16 word \<Rightarrow> bytes" where
  "be16 v = [ucast (drop_bit 8 v), ucast v]"

section \<open>The encode session\<close>

text \<open>
  The encoding modes \<^verbatim>\<open>cb\<close> that the writer names; \<open>cbInvalid\<close> is the zero value
  of the field, and stands for every value the writer does not name.
\<close>

datatype cb =
  cbInvalid | cbG8 | cbTC8 | cbP8 | cbP4 | cbP2 | cbP1 | cbTCA8 | cbG16 | cbTC16 | cbTCA16

text \<open>
  \<^verbatim>\<open>type encoder struct\<close>: the session. \<open>e_level\<close> is \<^verbatim>\<open>e.enc.CompressionLevel\<close>,
  \<open>e_w\<close> the sink, \<open>e_err\<close> the sticky error (\<open>None\<close> is \<^verbatim>\<open>nil\<close>). \<open>e_tmp\<close> is the scratch
  array \<^verbatim>\<open>tmp [4 * 256]byte\<close>: a function from the index to the byte, with the bound 1024
  checked wherever the code indexes or slices it with a computed value. \<open>e_cr\<close> holds the row
  buffers of a pooled session with their capacity as length. The fields \<^verbatim>\<open>header\<close> and
  \<^verbatim>\<open>footer\<close> are written and read inside \<^verbatim>\<open>writeChunk\<close> only and are local there;
  the image \<^verbatim>\<open>m\<close> is passed to the functions that read it.
\<close>

record encoder =
  e_level :: int
  e_w :: sink
  e_cb :: cb
  e_err :: "error option"
  e_tmp :: "nat \<Rightarrow> u8"
  e_cr :: rows

text \<open>\<^verbatim>\<open>copy(e.tmp[off:], bs)\<close> for bytes that fit, and the slice \<^verbatim>\<open>e.tmp[lo:hi]\<close>.\<close>

definition put :: "(nat \<Rightarrow> u8) \<Rightarrow> nat \<Rightarrow> bytes \<Rightarrow> nat \<Rightarrow> u8" where
  "put t off bs = (\<lambda>i. if off \<le> i \<and> i < off + length bs then bs ! (i - off) else t i)"

definition slice_of :: "(nat \<Rightarrow> u8) \<Rightarrow> nat \<Rightarrow> nat \<Rightarrow> bytes" where
  "slice_of t lo hi = map t [lo..<hi]"

definition chunk_name :: "string \<Rightarrow> bytes" where
  "chunk_name name = map of_char name"

text \<open>
  \<^verbatim>\<open>writeChunk\<close>: a no-op when the session holds an error; the error
  \<^verbatim>\<open>UnsupportedError\<close> when the length does not fit 32 bits; else three writes to the
  sink (the 8-byte header, the payload, the 4-byte CRC), stopping at the first that fails.
\<close>

definition writeChunk :: "extern \<Rightarrow> encoder \<Rightarrow> bytes \<Rightarrow> string \<Rightarrow> encoder" where
  "writeChunk X e b name =
     (if e_err e \<noteq> None then e
      else if 2 ^ 32 \<le> int (length b) then e\<lparr>e_err := Some (UnsupportedError name (length b))\<rparr>
      else
        let header = be32 (of_nat (length b)) @ chunk_name name;
            footer = be32 (crc32_ieee X (chunk_name name @ b))
        in case sink_write (e_w e) header of
             (w1, Some x) \<Rightarrow> e\<lparr>e_w := w1, e_err := Some x\<rparr>
           | (w1, None) \<Rightarrow>
               (case sink_write w1 b of
                  (w2, Some x) \<Rightarrow> e\<lparr>e_w := w2, e_err := Some x\<rparr>
                | (w2, None) \<Rightarrow>
                    (case sink_write w2 footer of
                       (w3, r) \<Rightarrow> e\<lparr>e_w := w3, e_err := r\<rparr>)))"

text \<open>The bytes of one chunk in the stream: length, tag, payload, CRC of tag and payload.\<close>

definition frame :: "extern \<Rightarrow> string \<Rightarrow> bytes \<Rightarrow> bytes" where
  "frame X name b =
     be32 (of_nat (length b)) @ chunk_name name @ b @ be32 (crc32_ieee X (chunk_name name @ b))"

section \<open>The source image and the metadata\<close>

text \<open>
  \<^verbatim>\<open>image.Rectangle\<close>: Go's \<^verbatim>\<open>int\<close> coordinates as 64-bit words read in two's
  complement. \<^verbatim>\<open>Dx()\<close> is \<^verbatim>\<open>Max.X - Min.X\<close>, which wraps as the word subtraction does.
\<close>

record rectangle =
  Min_X :: "64 word"
  Min_Y :: "64 word"
  Max_X :: "64 word"
  Max_Y :: "64 word"

definition Dx :: "rectangle \<Rightarrow> int" where
  "Dx r = sint (Max_X r - Min_X r)"

definition Dy :: "rectangle \<Rightarrow> int" where
  "Dy r = sint (Max_Y r - Min_Y r)"

text \<open>A palette entry as \<^verbatim>\<open>color.NRGBAModel.Convert\<close> returns it.\<close>

record nrgba =
  c_R :: u8
  c_G :: u8
  c_B :: u8
  c_A :: u8

text \<open>
  The colour models the mode selection compares \<^verbatim>\<open>m.ColorModel()\<close> with; every other
  model is \<open>OtherModel\<close>.
\<close>

datatype color_model = GrayModel | Gray16Model | RGBAModel | NRGBAModel | AlphaModel | OtherModel

text \<open>
  A source image that is not deferred, through the methods the encoder calls:
  \<^item> \<open>bounds\<close>: \<^verbatim>\<open>m.Bounds()\<close>;
  \<^item> \<open>color_model\<close>: \<^verbatim>\<open>m.ColorModel()\<close>;
  \<^item> \<open>palette\<close>: \<open>Some p\<close> when \<open>m\<close> is an \<^verbatim>\<open>image.PalettedImage\<close> whose colour model is
    a non-nil \<^verbatim>\<open>color.Palette\<close>, with every entry converted to NRGBA;
  \<^item> \<open>opaquer\<close>: \<open>Some b\<close> when \<open>m\<close> has the method \<^verbatim>\<open>Opaque()\<close>, \<open>b\<close> its result;
  \<^item> \<open>alpha_at x y\<close>: the alpha of \<^verbatim>\<open>m.At(x, y).RGBA()\<close>;
  \<^item> \<open>scanline c y\<close>: the bytes the converter of \<^verbatim>\<open>writeImage\<close> stores from
    \<^verbatim>\<open>cr[0][1]\<close> on for row \<open>y\<close> in mode \<open>c\<close>. They depend on the pixel types of the
    image package, which are outside the sources.
\<close>

record image =
  bounds :: rectangle
  color_model :: color_model
  palette :: "nrgba list option"
  opaquer :: "bool option"
  alpha_at :: "int \<Rightarrow> int \<Rightarrow> 32 word"
  scanline :: "cb \<Rightarrow> int \<Rightarrow> bytes"

text \<open>
  \<^verbatim>\<open>*Deferred\<close>: the chunk bytes captured when the image was read, each with its
  trailing 4-byte CRC. \<open>None\<close> is a nil slice; \<^verbatim>\<open>ihdr\<close> is sliced without a nil check.
\<close>

record deferred =
  ihdr :: bytes
  plte :: "bytes option"
  trns :: "bytes option"
  idat :: "bytes option"

datatype source = Fresh image | Deferred deferred

text \<open>\<^verbatim>\<open>opaque\<close>: whether or not the image is fully opaque.\<close>

definition opaque :: "image \<Rightarrow> bool" where
  "opaque m =
     (case opaquer m of
        Some b \<Rightarrow> b
      | None \<Rightarrow>
          list_all (\<lambda>y. list_all (\<lambda>x. alpha_at m x y = 0xffff)
                             [sint (Min_X (bounds m)) .. sint (Max_X (bounds m)) - 1])
                   [sint (Min_Y (bounds m)) .. sint (Max_Y (bounds m)) - 1])"

text \<open>
  The mode selection of \<^verbatim>\<open>EncodeExtended\<close> for a source that is not deferred: the
  palette first, then the switch on the colour model.
\<close>

definition select_cb :: "image \<Rightarrow> cb" where
  "select_cb m =
     (case palette m of
        Some pal \<Rightarrow>
          (if length pal \<le> 2 then cbP1
           else if length pal \<le> 4 then cbP2
           else if length pal \<le> 16 then cbP4
           else cbP8)
      | None \<Rightarrow>
          (case color_model m of
             GrayModel \<Rightarrow> cbG8
           | Gray16Model \<Rightarrow> cbG16
           | RGBAModel \<Rightarrow> (if opaque m then cbTC8 else cbTCA8)
           | NRGBAModel \<Rightarrow> (if opaque m then cbTC8 else cbTCA8)
           | AlphaModel \<Rightarrow> (if opaque m then cbTC8 else cbTCA8)
           | OtherModel \<Rightarrow> (if opaque m then cbTC16 else cbTCA16)))"

text \<open>
  \<^verbatim>\<open>*Metadata\<close> and \<^verbatim>\<open>*TextEntry\<close>, by the fields the writer reads. The types are
  declared outside the sources. An absent field (\<^verbatim>\<open>nil\<close>) is \<open>None\<close>. \<open>icc\<close> and \<open>xmp\<close>
  are \<open>Some r\<close> when an object is registered, \<open>r\<close> being what its \<^verbatim>\<open>Encode\<close> hook returns.
  \<open>validate\<close> is the result of \<^verbatim>\<open>metadata.validate()\<close>. Go strings are byte sequences.
\<close>

record chroma =
  WhiteX :: "32 word"
  WhiteY :: "32 word"
  RedX :: "32 word"
  RedY :: "32 word"
  GreenX :: "32 word"
  GreenY :: "32 word"
  BlueX :: "32 word"
  BlueY :: "32 word"

record dimension =
  dim_X :: int
  dim_Y :: int
  dim_Unit :: int

text \<open>\<^verbatim>\<open>m.LastModified.UTC()\<close>, by the results of its accessor methods.\<close>

record utc_time =
  Year :: int
  Month :: int
  Day :: int
  Hour :: int
  Minute :: int
  Second :: int

datatype entry_type = EtText | EtZtext | EtItext | EtOther

record text_entry =
  Key :: bytes
  Value :: bytes
  EntryType :: entry_type
  LanguageTag :: bytes
  TranslatedKey :: bytes

record metadata =
  Gamma :: "32 word option"
  Chroma :: "chroma option"
  SRGBIntent :: "int option"
  LastModified :: "utc_time option"
  icc :: "(nat + bytes) option"
  rawIcc :: bytes
  iccName :: bytes
  Dimension :: "dimension option"
  xmp :: "(nat + bytes) option"
  rawXmp :: "bytes option"
  Text :: "text_entry list"
  Histogram :: "16 word list option"
  validate :: "nat option"

datatype write_option = OptMetadata metadata | OptOther

text \<open>\<^verbatim>\<open>type Encoder struct\<close>; \<open>BufferPool\<close> is the buffer its \<^verbatim>\<open>Get()\<close> hands out, if any.\<close>

record Encoder =
  CompressionLevel :: int
  BufferPool :: "encoder option"

definition DefaultCompression :: int where "DefaultCompression = 0"
definition NoCompression :: int where "NoCompression = - 1"
definition BestSpeed :: int where "BestSpeed = - 2"
definition BestCompression :: int where "BestCompression = - 3"

text \<open>The level constants of Go's \<^verbatim>\<open>compress/zlib\<close>.\<close>

definition zlib_NoCompression :: int where "zlib_NoCompression = 0"
definition zlib_BestSpeed :: int where "zlib_BestSpeed = 1"
definition zlib_BestCompression :: int where "zlib_BestCompression = 9"
definition zlib_DefaultCompression :: int where "zlib_DefaultCompression = - 1"

definition levelToZlib :: "int \<Rightarrow> int" where
  "levelToZlib l =
     (if l = DefaultCompression then zlib_DefaultCompression
      else if l = NoCompression then zlib_NoCompression
      else if l = BestSpeed then zlib_BestSpeed
      else if l = BestCompression then zlib_BestCompression
      else zlib_DefaultCompression)"

section \<open>The chunk writers\<close>

definition writeIHDR :: "extern \<Rightarrow> encoder \<Rightarrow> image \<Rightarrow> encoder" where
  "writeIHDR X e m =
     (let t = put (e_tmp e) 0 (be32 (ucast (Max_X (bounds m) - Min_X (bounds m))));
          t = put t 4 (be32 (ucast (Max_Y (bounds m) - Min_Y (bounds m))));
          t = (case e_cb e of
                 cbG8 \<Rightarrow> t(8 := 8, 9 := ctGrayscale X)
               | cbTC8 \<Rightarrow> t(8 := 8, 9 := ctTrueColor X)
               | cbP8 \<Rightarrow> t(8 := 8, 9 := ctPaletted X)
               | cbP4 \<Rightarrow> t(8 := 4, 9 := ctPaletted X)
               | cbP2 \<Rightarrow> t(8 := 2, 9 := ctPaletted X)
               | cbP1 \<Rightarrow> t(8 := 1, 9 := ctPaletted X)
               | cbTCA8 \<Rightarrow> t(8 := 8, 9 := ctTrueColorAlpha X)
               | cbG16 \<Rightarrow> t(8 := 16, 9 := ctGrayscale X)
               | cbTC16 \<Rightarrow> t(8 := 16, 9 := ctTrueColor X)
               | cbTCA16 \<Rightarrow> t(8 := 16, 9 := ctTrueColorAlpha X)
               | cbInvalid \<Rightarrow> t);
          t = t(10 := 0, 11 := 0, 12 := 0)
      in writeChunk X (e\<lparr>e_tmp := t\<rparr>) (slice_of t 0 13) ''IHDR'')"

text \<open>
  \<^verbatim>\<open>writePLTEAndTRNS\<close>. The loop stores the RGB bytes of entry \<open>i\<close> at \<open>3 i\<close> and its
  alpha at \<open>3 * 256 + i\<close>, and keeps in \<open>lst\<close> (the variable \<^verbatim>\<open>last\<close>) the index of the last entry whose alpha is
  not 0xff (\<open>- 1\<close> when there is none). The length check does not look at the sticky error.
\<close>

fun plte_loop :: "(nat \<Rightarrow> u8) \<Rightarrow> int \<Rightarrow> nrgba list \<Rightarrow> nat \<Rightarrow> (nat \<Rightarrow> u8) \<times> int" where
  "plte_loop t lst [] i = (t, lst)"
| "plte_loop t lst (c1 # cs) i =
     plte_loop (t(3 * i := c_R c1, 3 * i + 1 := c_G c1, 3 * i + 2 := c_B c1, 3 * 256 + i := c_A c1))
       (if c_A c1 \<noteq> 0xff then int i else lst) cs (Suc i)"

definition writePLTEAndTRNS :: "extern \<Rightarrow> encoder \<Rightarrow> nrgba list \<Rightarrow> encoder" where
  "writePLTEAndTRNS X e p =
     (if length p < 1 \<or> 256 < length p
      then e\<lparr>e_err := Some (FormatError (BadPaletteLength (length p)))\<rparr>
      else
        let (t, lst) = plte_loop (e_tmp e) (- 1) p 0;
            e = writeChunk X (e\<lparr>e_tmp := t\<rparr>) (slice_of t 0 (3 * length p)) ''PLTE''
        in if lst \<noteq> - 1
           then writeChunk X e (slice_of t (3 * 256) (3 * 256 + 1 + nat lst)) ''tRNS''
           else e)"

definition maybeWriteGAMA :: "extern \<Rightarrow> encoder \<Rightarrow> metadata option \<Rightarrow> encoder" where
  "maybeWriteGAMA X e m =
     (case m of
        None \<Rightarrow> e
      | Some md \<Rightarrow>
          (case Gamma md of
             None \<Rightarrow> e
           | Some g \<Rightarrow>
               if e_err e \<noteq> None then e
               else let t = put (e_tmp e) 0 (be32 g)
                    in writeChunk X (e\<lparr>e_tmp := t\<rparr>) (slice_of t 0 4) ''gAMA''))"

definition maybeWritePHYS :: "extern \<Rightarrow> encoder \<Rightarrow> metadata option \<Rightarrow> encoder" where
  "maybeWritePHYS X e m =
     (case m of
        None \<Rightarrow> e
      | Some md \<Rightarrow>
          (case Dimension md of
             None \<Rightarrow> e
           | Some d \<Rightarrow>
               if e_err e \<noteq> None then e
               else let t = put (e_tmp e) 0 (be32 (word_of_int (dim_X d)));
                        t = put t 4 (be32 (word_of_int (dim_Y d)));
                        t = t(8 := word_of_int (dim_Unit d))
                    in writeChunk X (e\<lparr>e_tmp := t\<rparr>) (slice_of t 0 9) ''pHYs''))"

definition maybeWriteTIME :: "extern \<Rightarrow> encoder \<Rightarrow> metadata option \<Rightarrow> encoder" where
  "maybeWriteTIME X e m =
     (if e_err e \<noteq> None then e
      else case m of
        None \<Rightarrow> e
      | Some md \<Rightarrow>
          (case LastModified md of
             None \<Rightarrow> e
           | Some utc \<Rightarrow>
               let t = put (e_tmp e) 0 (be16 (word_of_int (Year utc)));
                   t = t(2 := word_of_int (Month utc), 3 := word_of_int (Day utc),
                         4 := word_of_int (Hour utc), 5 := word_of_int (Minute utc),
                         6 := word_of_int (Second utc))
               in writeChunk X (e\<lparr>e_tmp := t\<rparr>) (slice_of t 0 7) ''tIME''))"

definition maybeWriteSRGB :: "extern \<Rightarrow> encoder \<Rightarrow> metadata option \<Rightarrow> encoder" where
  "maybeWriteSRGB X e m =
     (case m of
        None \<Rightarrow> e
      | Some md \<Rightarrow>
          (case SRGBIntent md of
             None \<Rightarrow> e
           | Some i \<Rightarrow>
               if e_err e \<noteq> None then e
               else let t = (e_tmp e)(0 := word_of_int i)
                    in writeChunk X (e\<lparr>e_tmp := t\<rparr>) (slice_of t 0 1) ''sRGB''))"

definition maybeWriteCHRM :: "extern \<Rightarrow> encoder \<Rightarrow> metadata option \<Rightarrow> encoder" where
  "maybeWriteCHRM X e m =
     (case m of
        None \<Rightarrow> e
      | Some md \<Rightarrow>
          (case Chroma md of
             None \<Rightarrow> e
           | Some c \<Rightarrow>
               if e_err e \<noteq> None then e
               else let t = put (e_tmp e) 0 (be32 (WhiteX c));
                        t = put t 4 (be32 (WhiteY c));
                        t = put t 8 (be32 (RedX c));
                        t = put t 12 (be32 (RedY c));
                        t = put t 16 (be32 (GreenX c));
                        t = put t 20 (be32 (GreenY c));
                        t = put t 24 (be32 (BlueX c));
                        t = put t 28 (be32 (BlueY c))
                    in writeChunk X (e\<lparr>e_tmp := t\<rparr>) (slice_of t 0 32) ''cHRM''))"

definition maybeWriteHIST :: "extern \<Rightarrow> encoder \<Rightarrow> metadata option \<Rightarrow> encoder" where
  "maybeWriteHIST X e m =
     (case m of
        None \<Rightarrow> e
      | Some md \<Rightarrow>
          (case Histogram md of
             None \<Rightarrow> e
           | Some h \<Rightarrow>
               if e_err e \<noteq> None then e
               else writeChunk X e (concat (map be16 h)) ''hIST''))"

text \<open>
  \<^verbatim>\<open>pngCompress\<close>: the compressed bytes and the compression method, which is always 0,
  or the error of the zlib writer.
\<close>

definition pngCompress :: "extern \<Rightarrow> encoder \<Rightarrow> bytes \<Rightarrow> error + (bytes \<times> int)" where
  "pngCompress X e input =
     (case zlib_stream X (levelToZlib (e_level e)) input of
        Inl x \<Rightarrow> Inl (External x)
      | Inr b \<Rightarrow> Inr (b, 0))"

subsection \<open>Text entries\<close>

text \<open>
  \<^verbatim>\<open>for i, b := range t.Value { buf[len(t.Key)+i+1] = byte(b) }\<close> ranges over the runes of
  the string: \<open>i\<close> is the index of the first byte of a rune and \<open>b\<close> the rune, of which the
  low byte is stored; the buffer keeps its zero at the other bytes of a rune that is several
  bytes long. \<open>rune_at\<close> decodes the first rune of a string as Go does: its width and its
  low byte. A byte that starts no valid UTF-8 sequence is the rune U+FFFD of width 1.
\<close>

definition within :: "u8 \<Rightarrow> u8 \<Rightarrow> u8 \<Rightarrow> bool" where
  "within lo hi b \<longleftrightarrow> lo \<le> b \<and> b \<le> hi"

fun rune_at :: "bytes \<Rightarrow> nat \<times> u8" where
  "rune_at [] = (1, 0)"
| "rune_at (x # xs) =
     (if x < 0x80 then (1, x)
      else if within 0xC2 0xDF x then
        (case xs of
           b1 # _ \<Rightarrow>
             if within 0x80 0xBF b1 then (2, push_bit 6 x OR (b1 AND 0x3F)) else (1, 0xFD)
         | _ \<Rightarrow> (1, 0xFD))
      else if within 0xE0 0xEF x then
        (case xs of
           b1 # b2 # _ \<Rightarrow>
             if within (if x = 0xE0 then 0xA0 else 0x80) (if x = 0xED then 0x9F else 0xBF) b1
                \<and> within 0x80 0xBF b2
             then (3, push_bit 6 b1 OR (b2 AND 0x3F)) else (1, 0xFD)
         | _ \<Rightarrow> (1, 0xFD))
      else if within 0xF0 0xF4 x then
        (case xs of
           b1 # b2 # b3 # _ \<Rightarrow>
             if within (if x = 0xF0 then 0x90 else 0x80) (if x = 0xF4 then 0x8F else 0xBF) b1
                \<and> within 0x80 0xBF b2 \<and> within 0x80 0xBF b3
             then (4, push_bit 6 b2 OR (b3 AND 0x3F)) else (1, 0xFD)
         | _ \<Rightarrow> (1, 0xFD))
      else (1, 0xFD))"

function range_bytes :: "bytes \<Rightarrow> bytes" where
  "range_bytes [] = []"
| "range_bytes (x # xs) =
     snd (rune_at (x # xs)) # replicate (fst (rune_at (x # xs)) - 1) 0
       @ range_bytes (drop (fst (rune_at (x # xs)) - 1) xs)"
  by pat_completeness auto
termination
  by (relation "measure length") auto

text \<open>\<^verbatim>\<open>maybeWriteTEXT\<close> allocates a buffer of the size of its payload.\<close>

definition maybeWriteTEXT :: "extern \<Rightarrow> encoder \<Rightarrow> text_entry \<Rightarrow> encoder" where
  "maybeWriteTEXT X e t =
     (if e_err e \<noteq> None then e
      else writeChunk X e (Key t @ [0] @ range_bytes (Value t)) ''tEXt'')"

text \<open>
  \<^verbatim>\<open>maybeWriteZTXT\<close> assembles its payload in \<^verbatim>\<open>e.tmp\<close>, an array of 1024 bytes. Each
  index and slice expression panics out of range; \<^verbatim>\<open>copy\<close> does not, it copies what fits.
  The checks stand in the order of the statements:
  \<^verbatim>\<open>e.tmp[:len(t.Key)]\<close>, \<^verbatim>\<open>e.tmp[len(t.Key)]\<close>, \<^verbatim>\<open>e.tmp[len(t.Key)+1]\<close>,
  \<^verbatim>\<open>e.tmp[len(t.Key)+2:]\<close> (when the value is not empty) and \<^verbatim>\<open>e.tmp[:length]\<close>.
\<close>

definition maybeWriteZTXT :: "extern \<Rightarrow> encoder \<Rightarrow> text_entry \<Rightarrow> encoder option" where
  "maybeWriteZTXT X e t =
     (if e_err e \<noteq> None then Some e
      else case pngCompress X e (Value t) of
        Inl x \<Rightarrow> Some (e\<lparr>e_err := Some x\<rparr>)
      | Inr (val, method) \<Rightarrow>
          let k = length (Key t) in
          if 1024 < k then None
          else let t1 = put (e_tmp e) 0 (Key t) in
          if 1024 \<le> k then None
          else let t2 = t1(k := 0) in
          if 1024 \<le> k + 1 then None
          else let t3 = t2(k + 1 := word_of_int method) in
          if val \<noteq> [] \<and> 1024 < k + 2 then None
          else let len = k + 2 + length val;
                   t4 = (if val \<noteq> [] then put t3 (k + 2) (take (1024 - (k + 2)) val) else t3)
          in if 1024 < len then None
             else Some (writeChunk X (e\<lparr>e_tmp := t4\<rparr>) (slice_of t4 0 len) ''zTXt''))"

text \<open>\<^verbatim>\<open>maybeWriteITXT\<close> allocates a buffer of the size of its payload, too.\<close>

definition maybeWriteITXT :: "extern \<Rightarrow> encoder \<Rightarrow> text_entry \<Rightarrow> encoder" where
  "maybeWriteITXT X e t =
     (if e_err e \<noteq> None then e
      else case pngCompress X e (Value t) of
        Inl x \<Rightarrow> e\<lparr>e_err := Some x\<rparr>
      | Inr (val, method) \<Rightarrow>
          writeChunk X e
            (Key t @ [0] @ [1] @ [word_of_int method] @ LanguageTag t @ [0]
               @ TranslatedKey t @ [0] @ val)
            ''iTXt'')"

definition maybeWriteXMP :: "extern \<Rightarrow> encoder \<Rightarrow> metadata option \<Rightarrow> encoder" where
  "maybeWriteXMP X e m =
     (case m of
        None \<Rightarrow> e
      | Some md \<Rightarrow>
          if rawXmp md = None \<and> xmp md = None then e
          else if e_err e \<noteq> None then e
          else
            let xmpText = (case rawXmp md of Some r \<Rightarrow> r | None \<Rightarrow> [])
            in case xmp md of
                 Some (Inl x) \<Rightarrow> e\<lparr>e_err := Some (External x)\<rparr>
               | Some (Inr encoded) \<Rightarrow>
                   maybeWriteITXT X e
                     \<lparr>Key = xmpTextKey X, Value = encoded, EntryType = EtItext,
                      LanguageTag = [], TranslatedKey = []\<rparr>
               | None \<Rightarrow>
                   maybeWriteITXT X e
                     \<lparr>Key = xmpTextKey X, Value = xmpText, EntryType = EtItext,
                      LanguageTag = [], TranslatedKey = []\<rparr>)"

text \<open>
  \<^verbatim>\<open>maybeWriteICCP\<close>. The raw blob is assigned to \<^verbatim>\<open>chunk\<close>, but the only
  \<^verbatim>\<open>writeChunk\<close> stands inside \<^verbatim>\<open>if m.icc != nil\<close>, where \<^verbatim>\<open>chunk\<close> is first
  overwritten with the encoded object.
\<close>

definition maybeWriteICCP :: "extern \<Rightarrow> encoder \<Rightarrow> metadata option \<Rightarrow> encoder" where
  "maybeWriteICCP X e m =
     (case m of
        None \<Rightarrow> e
      | Some md \<Rightarrow>
          if e_err e \<noteq> None then e
          else if icc md = None \<and> rawIcc md = [] then e
          else
            (case icc md of
               None \<Rightarrow> e
             | Some (Inl x) \<Rightarrow> e\<lparr>e_err := Some (External x)\<rparr>
             | Some (Inr chunk) \<Rightarrow>
                 (case pngCompress X e chunk of
                    Inl x \<Rightarrow> e\<lparr>e_err := Some x\<rparr>
                  | Inr (chunk', compression) \<Rightarrow>
                      writeChunk X e (iccName md @ [0] @ [word_of_int compression] @ chunk')
                        ''iCCP'')))"

definition writeIEND :: "extern \<Rightarrow> encoder \<Rightarrow> encoder" where
  "writeIEND X e = writeChunk X e [] ''IEND''"

section \<open>The image data\<close>

definition bitsPerPixel :: "cb \<Rightarrow> int" where
  "bitsPerPixel c =
     (case c of
        cbG8 \<Rightarrow> 8 | cbTC8 \<Rightarrow> 24 | cbP8 \<Rightarrow> 8 | cbP4 \<Rightarrow> 4 | cbP2 \<Rightarrow> 2 | cbP1 \<Rightarrow> 1
      | cbTCA8 \<Rightarrow> 32 | cbTC16 \<Rightarrow> 48 | cbTCA16 \<Rightarrow> 64 | cbG16 \<Rightarrow> 16 | cbInvalid \<Rightarrow> 0)"

text \<open>Go's integer division truncates towards zero.\<close>

definition tdiv :: "int \<Rightarrow> int \<Rightarrow> int" where
  "tdiv a b = sgn a * sgn b * (\<bar>a\<bar> div \<bar>b\<bar>)"

text \<open>
  A row buffer of the session, made to hold \<open>sz\<close> bytes: a new zeroed buffer when the
  capacity is too small, the first \<open>sz\<close> bytes of the old one otherwise.
\<close>

definition resize :: "bytes \<Rightarrow> nat \<Rightarrow> bytes" where
  "resize buf sz = (if length buf < sz then replicate sz 0 else take sz buf)"

text \<open>
  The converter stores exactly the data bytes of the row, whatever the mode: \<open>fit\<close> cuts
  or pads what \<open>scanline\<close> supplies to the length of the buffer, which no branch of the
  converter can change.
\<close>

definition fit :: "nat \<Rightarrow> bytes \<Rightarrow> bytes" where
  "fit n xs = take n (xs @ replicate n 0)"

text \<open>
  Whether \<^verbatim>\<open>writeImage\<close> calls \<^verbatim>\<open>filter\<close>:
  \<^verbatim>\<open>level != zlib.NoCompression && cb != cbP8 && cb != cbP4 && cb != cbP2 && cb != cbP1\<close>.
\<close>

definition uses_filter :: "int \<Rightarrow> cb \<Rightarrow> bool" where
  "uses_filter level c \<longleftrightarrow>
     level \<noteq> zlib_NoCompression \<and> c \<noteq> cbP8 \<and> c \<noteq> cbP4 \<and> c \<noteq> cbP2 \<and> c \<noteq> cbP1"

text \<open>
  The loop over the rows of \<^verbatim>\<open>writeImage\<close>: convert the row into \<^verbatim>\<open>cr[0]\<close>, choose
  the filter \<open>f\<close>, write \<^verbatim>\<open>cr[f]\<close> to the zlib writer, swap \<^verbatim>\<open>pr\<close> and \<^verbatim>\<open>cr[0]\<close>. The
  result lists the buffers written to the zlib writer, in order.
\<close>

fun write_rows :: "(u8 \<Rightarrow> u8 \<Rightarrow> u8 \<Rightarrow> u8) \<Rightarrow> bool \<Rightarrow> int \<Rightarrow> (int \<Rightarrow> bytes) \<Rightarrow> int list \<Rightarrow> rows \<Rightarrow> bytes
    \<Rightarrow> bytes list option" where
  "write_rows paeth flt bpp scan [] crs pr = Some []"
| "write_rows paeth flt bpp scan (y # ys) crs pr =
     (let crs = crs\<lparr>cr0 := take 1 (cr0 crs) @ fit (length (cr0 crs) - 1) (scan y)\<rparr>
      in if flt then
           (case filter_png paeth crs pr bpp of
              None \<Rightarrow> None
            | Some (f, crs') \<Rightarrow>
                map_option ((#) (cr_at crs' f))
                  (write_rows paeth flt bpp scan ys (crs'\<lparr>cr0 := pr\<rparr>) (cr0 crs')))
         else
           map_option ((#) (cr_at crs ftNone))
             (write_rows paeth flt bpp scan ys (crs\<lparr>cr0 := pr\<rparr>) (cr0 crs)))"

text \<open>
  \<^verbatim>\<open>writeImage\<close>, up to the zlib writer: the rows it writes to it. A size below 1 panics
  when the buffers are sliced and tagged. \<^verbatim>\<open>levelToZlib\<close> yields only levels that
  \<^verbatim>\<open>zlib.NewWriterLevel\<close> accepts. What the buffers hold after the call is not kept: the
  session does not read them again.
\<close>

definition writeImage :: "extern \<Rightarrow> encoder \<Rightarrow> image \<Rightarrow> cb \<Rightarrow> int \<Rightarrow> bytes list option" where
  "writeImage X e m c level =
     (let b = bounds m;
          sz = 1 + tdiv (bitsPerPixel c * Dx b + 7) 8
      in if sz < 1 then None
         else
           let crs = \<lparr>cr0 = (resize (cr0 (e_cr e)) (nat sz))[0 := 0],
                      cr1 = (resize (cr1 (e_cr e)) (nat sz))[0 := 1],
                      cr2 = (resize (cr2 (e_cr e)) (nat sz))[0 := 2],
                      cr3 = (resize (cr3 (e_cr e)) (nat sz))[0 := 3],
                      cr4 = (resize (cr4 (e_cr e)) (nat sz))[0 := 4]\<rparr>;
               pr = replicate (nat sz) 0
           in write_rows (ext_paeth X) (uses_filter level c) (tdiv (bitsPerPixel c) 8)
                (scanline m c) [sint (Min_Y b) .. sint (Max_Y b) - 1] crs pr)"

text \<open>
  \<^verbatim>\<open>writeIDATs\<close>: every slice the buffered zlib writer hands to the encoder's
  \<^verbatim>\<open>Write\<close> is an IDAT chunk. After the first write that fails, \<^verbatim>\<open>writeChunk\<close> is a
  no-op, as the buffered writer stops writing; the error it keeps is the one
  \<^verbatim>\<open>writeChunk\<close> recorded.
\<close>

definition writeIDATs :: "extern \<Rightarrow> encoder \<Rightarrow> image \<Rightarrow> encoder option" where
  "writeIDATs X e m =
     (if e_err e \<noteq> None then Some e
      else case writeImage X e m (e_cb e) (levelToZlib (e_level e)) of
        None \<Rightarrow> None
      | Some rws \<Rightarrow>
          Some (foldl (\<lambda>e b. writeChunk X e b ''IDAT'') e
                  (zlib_writes X (levelToZlib (e_level e)) rws)))"

section \<open>The orchestrator\<close>

text \<open>The loop over the options: at most one metadata bundle, which must validate.\<close>

fun read_opts :: "write_option list \<Rightarrow> metadata option \<Rightarrow> error + metadata option" where
  "read_opts [] md = Inr md"
| "read_opts (OptMetadata lo # os) md =
     (if md \<noteq> None then Inl MultipleMetadata
      else case validate lo of
        Some x \<Rightarrow> Inl (External x)
      | None \<Rightarrow> read_opts os (Some lo))"
| "read_opts (OptOther # os) md = Inl UnknownWriteOption"

text \<open>The size validation: skipped for a deferred source.\<close>

definition size_check :: "source \<Rightarrow> error option" where
  "size_check m =
     (case m of
        Deferred di \<Rightarrow> None
      | Fresh im \<Rightarrow>
          let mw = Dx (bounds im); mh = Dy (bounds im)
          in if mw \<le> 0 \<or> mh \<le> 0 \<or> 2 ^ 32 \<le> mw \<or> 2 ^ 32 \<le> mh
             then Some (FormatError (InvalidImageSize mw mh))
             else None)"

text \<open>The session: the buffer of the pool, or the zero value \<^verbatim>\<open>&encoder{}\<close>.\<close>

definition zero_encoder :: encoder where
  "zero_encoder =
     \<lparr>e_level = 0, e_w = \<lparr>written = [], policy = (\<lambda>h p. None)\<rparr>, e_cb = cbInvalid,
      e_err = None, e_tmp = (\<lambda>i. 0),
      e_cr = \<lparr>cr0 = [], cr1 = [], cr2 = [], cr3 = [], cr4 = []\<rparr>\<rparr>"

definition session :: "Encoder \<Rightarrow> sink \<Rightarrow> encoder" where
  "session enc w =
     (case BufferPool enc of Some b \<Rightarrow> b | None \<Rightarrow> zero_encoder)
       \<lparr>e_level := CompressionLevel enc, e_w := w\<rparr>"

text \<open>\<^verbatim>\<open>b[:len(b)-4]\<close>: a captured chunk minus its CRC; it panics below 4 bytes.\<close>

definition drop_crc :: "bytes \<Rightarrow> bytes option" where
  "drop_crc b = (if length b < 4 then None else Some (take (length b - 4) b))"

text \<open>The loop over \<^verbatim>\<open>metadata.Text\<close>.\<close>

fun write_texts :: "extern \<Rightarrow> encoder \<Rightarrow> text_entry list \<Rightarrow> encoder option" where
  "write_texts X e [] = Some e"
| "write_texts X e (v # vs) =
     (case EntryType v of
        EtText \<Rightarrow> write_texts X (maybeWriteTEXT X e v) vs
      | EtZtext \<Rightarrow>
          (case maybeWriteZTXT X e v of None \<Rightarrow> None | Some e' \<Rightarrow> write_texts X e' vs)
      | EtItext \<Rightarrow> write_texts X (maybeWriteITXT X e v) vs
      | EtOther \<Rightarrow> write_texts X e vs)"

text \<open>The ancillary chunks of a metadata bundle, in the order of the calls.\<close>

definition write_metadata :: "extern \<Rightarrow> encoder \<Rightarrow> metadata \<Rightarrow> encoder option" where
  "write_metadata X e md =
     (let e = maybeWriteGAMA X e (Some md);
          e = maybeWriteCHRM X e (Some md);
          e = maybeWriteSRGB X e (Some md);
          e = maybeWriteTIME X e (Some md);
          e = maybeWriteICCP X e (Some md);
          e = maybeWritePHYS X e (Some md);
          e = maybeWriteXMP X e (Some md)
      in write_texts X e (Text md))"

text \<open>
  \<^verbatim>\<open>EncodeExtended\<close>: the error the call returns (\<open>None\<close> is \<^verbatim>\<open>nil\<close>) and the sink as
  the call leaves it; \<open>None\<close> as a whole when the call panics. The context argument only
  reaches the encode hooks, whose results the metadata holds.
\<close>

definition EncodeExtended :: "extern \<Rightarrow> Encoder \<Rightarrow> sink \<Rightarrow> source \<Rightarrow> write_option list
    \<Rightarrow> (error option \<times> sink) option" where
  "EncodeExtended X enc w m opts =
     (case read_opts opts None of
        Inl x \<Rightarrow> Some (Some x, w)
      | Inr metadata \<Rightarrow>
          (case size_check m of
             Some x \<Rightarrow> Some (Some x, w)
           | None \<Rightarrow> do {
               let e = session enc w;
               let e = (case m of Fresh im \<Rightarrow> e\<lparr>e_cb := select_cb im\<rparr> | Deferred di \<Rightarrow> e);
               let e = (case sink_write (e_w e) pngHeader of (w1, r) \<Rightarrow> e\<lparr>e_w := w1, e_err := r\<rparr>);
               e \<leftarrow> (case m of
                      Deferred di \<Rightarrow> map_option (\<lambda>b. writeChunk X e b ''IHDR'') (drop_crc (ihdr di))
                    | Fresh im \<Rightarrow> Some (writeIHDR X e im));
               e \<leftarrow> (case metadata of None \<Rightarrow> Some e | Some md \<Rightarrow> write_metadata X e md);
               e \<leftarrow> (case m of
                      Deferred di \<Rightarrow> do {
                        e \<leftarrow> (case plte di of
                               None \<Rightarrow> Some e
                             | Some b \<Rightarrow> map_option (\<lambda>b. writeChunk X e b ''PLTE'') (drop_crc b));
                        (case trns di of
                           None \<Rightarrow> Some e
                         | Some b \<Rightarrow> map_option (\<lambda>b. writeChunk X e b ''tRNS'') (drop_crc b))
                      }
                    | Fresh im \<Rightarrow>
                        Some (case palette im of
                                Some pal \<Rightarrow> writePLTEAndTRNS X e pal
                              | None \<Rightarrow> e));
               let e = maybeWriteHIST X e metadata;
               e \<leftarrow> (case m of
                      Deferred di \<Rightarrow>
                        (case idat di of
                           None \<Rightarrow> Some e
                         | Some b \<Rightarrow> map_option (\<lambda>b. writeChunk X e b ''IDAT'') (drop_crc b))
                    | Fresh im \<Rightarrow> writeIDATs X e im);
               let e = writeIEND X e;
               Some (e_err e, e_w e)
             }))"

text \<open>\<^verbatim>\<open>(*Encoder).Encode\<close>: \<^verbatim>\<open>EncodeExtended\<close> without options.\<close>

definition Encode :: "extern \<Rightarrow> Encoder \<Rightarrow> sink \<Rightarrow> source \<Rightarrow> (error option \<times> sink) option" where
  "Encode X enc w m = EncodeExtended X enc w m []"

section \<open>Concrete collaborators and inputs\<close>

text \<open>
  Instances on which the theorems below are evaluated. \<open>X0\<close> stands in for the external
  collaborators: a checksum that is the length, a compressor that stores its input after
  one byte and hands the whole stream over in one write, the Paeth predictor of the spec
  and the colour type bytes of the PNG standard.
\<close>

definition X0 :: extern where
  "X0 = \<lparr>crc32_ieee = (\<lambda>b. of_nat (length b)),
          zlib_stream = (\<lambda>level input. Inr (0x78 # input)),
          zlib_writes = (\<lambda>level rws. [0x78 # concat rws]),
          ext_paeth = paeth_spec,
          ctGrayscale = 0, ctTrueColor = 2, ctPaletted = 3, ctTrueColorAlpha = 6,
          xmpTextKey = map of_char ''XML:com.adobe.xmp''\<rparr>"

text \<open>An empty sink that accepts every write, and one whose first write fails.\<close>

definition sink0 :: sink where
  "sink0 = \<lparr>written = [], policy = (\<lambda>h p. None)\<rparr>"

definition sink_fail_first :: sink where
  "sink_fail_first = \<lparr>written = [], policy = (\<lambda>h p. if h = [] then Some (0, 1) else None)\<rparr>"

definition enc0 :: Encoder where
  "enc0 = \<lparr>CompressionLevel = DefaultCompression, BufferPool = None\<rparr>"

text \<open>
  The row buffers of a new session for a row of data bytes \<open>cur\<close>: tag byte \<open>i\<close> in buffer
  \<open>i\<close>, the row in \<^verbatim>\<open>cr[0]\<close>, zeros elsewhere.
\<close>

definition example_rows :: "bytes \<Rightarrow> rows" where
  "example_rows cur =
     \<lparr>cr0 = 0 # cur, cr1 = 1 # map (\<lambda>b. 0) cur, cr2 = 2 # map (\<lambda>b. 0) cur,
      cr3 = 3 # map (\<lambda>b. 0) cur, cr4 = 4 # map (\<lambda>b. 0) cur\<rparr>"

text \<open>
  Images of \<open>wd\<close> by \<open>ht\<close> pixels whose rows all hold the bytes \<open>row\<close>: one of the
  colour model \<^verbatim>\<open>color.GrayModel\<close> whose pixels all have the alpha \<open>alpha\<close> and which has
  no \<^verbatim>\<open>Opaque()\<close> method, and a paletted one.
\<close>

definition rect :: "int \<Rightarrow> int \<Rightarrow> rectangle" where
  "rect wd ht = \<lparr>Min_X = 0, Min_Y = 0, Max_X = word_of_int wd, Max_Y = word_of_int ht\<rparr>"

definition gray_image :: "int \<Rightarrow> int \<Rightarrow> 32 word \<Rightarrow> bytes \<Rightarrow> image" where
  "gray_image wd ht alpha row =
     \<lparr>bounds = rect wd ht, color_model = GrayModel, palette = None, opaquer = None,
      alpha_at = (\<lambda>x y. alpha), scanline = (\<lambda>c y. row)\<rparr>"

definition paletted_image :: "int \<Rightarrow> int \<Rightarrow> nrgba list \<Rightarrow> bytes \<Rightarrow> image" where
  "paletted_image wd ht p row =
     \<lparr>bounds = rect wd ht, color_model = OtherModel, palette = Some p, opaquer = None,
      alpha_at = (\<lambda>x y. 0xffff), scanline = (\<lambda>c y. row)\<rparr>"

definition opaque_colour :: nrgba where
  "opaque_colour = \<lparr>c_R = 1, c_G = 2, c_B = 3, c_A = 0xff\<rparr>"

definition clear_colour :: nrgba where
  "clear_colour = \<lparr>c_R = 4, c_G = 5, c_B = 6, c_A = 0x80\<rparr>"

text \<open>A palette of five entries of which only index 2 is not fully opaque.\<close>

definition palette5 :: "nrgba list" where
  "palette5 = [opaque_colour, opaque_colour, clear_colour, opaque_colour, opaque_colour]"

text \<open>
  A metadata bundle with no field set, and one that carries an ICC profile: the raw blob
  \<open>raw\<close> and, when \<open>obj\<close> is not \<open>None\<close>, a registered ICC object whose hook returns \<open>obj\<close>.
\<close>

definition no_metadata :: metadata where
  "no_metadata =
     \<lparr>Gamma = None, Chroma = None, SRGBIntent = None, LastModified = None, icc = None,
      rawIcc = [], iccName = [], Dimension = None, xmp = None, rawXmp = None, Text = [],
      Histogram = None, validate = None\<rparr>"

definition icc_metadata :: "bytes \<Rightarrow> (nat + bytes) option \<Rightarrow> metadata" where
  "icc_metadata raw obj = no_metadata\<lparr>icc := obj, rawIcc := raw, iccName := [105, 99, 99]\<rparr>"

text \<open>A text entry of type zTXt with a key of \<open>k\<close> bytes and the value \<open>v\<close>.\<close>

definition ztxt_entry :: "nat \<Rightarrow> bytes \<Rightarrow> text_entry" where
  "ztxt_entry k v =
     \<lparr>Key = replicate k 65, Value = v, EntryType = EtZtext, LanguageTag = [],
      TranslatedKey = []\<rparr>"

text \<open>
  A 2x2 image with a palette of 17 opaque colours, which needs the 8-bit paletted mode,
  every pixel of index 5.
\<close>

definition p8_image :: image where
  "p8_image = paletted_image 2 2 (replicate 17 opaque_colour) [5, 5]"


text \<open>
  A deferred source that captured an IHDR chunk only, and a metadata bundle with a gamma
  of 45455, a physical dimension and one text entry.
\<close>

definition bare_deferred :: deferred where
  "bare_deferred =
     \<lparr>ihdr = [0, 0, 0, 1, 0, 0, 0, 1, 8, 0, 0, 0, 0, 9, 9, 9, 9],
      plte = None, trns = None, idat = None\<rparr>"

definition scenario_metadata :: metadata where
  "scenario_metadata =
     no_metadata\<lparr>Gamma := Some 45455,
                  Dimension := Some \<lparr>dim_X = 2835, dim_Y = 2835, dim_Unit = 1\<rparr>,
                  Text := [\<lparr>Key = [65], Value = [66], EntryType = EtText, LanguageTag = [],
                            TranslatedKey = []\<rparr>]\<rparr>"

section \<open>Descriptions used by the statements\<close>

text \<open>
  The index of the last palette entry that is not fully opaque (0 when there is none),
  and the palette entries that are fully opaque.
\<close>

definition fully_opaque :: "nrgba \<Rightarrow> bool" where
  "fully_opaque c \<longleftrightarrow> c_A c = 0xff"

fun last_nonopaque :: "nrgba list \<Rightarrow> nat" where
  "last_nonopaque [] = 0"
| "last_nonopaque (c # cs) = (if list_all fully_opaque cs then 0 else Suc (last_nonopaque cs))"

text \<open>The payload of a PLTE chunk: three bytes R, G, B for each entry.\<close>

definition plte_payload :: "nrgba list \<Rightarrow> bytes" where
  "plte_payload p = concat (map (\<lambda>c. [c_R c, c_G c, c_B c]) p)"

text \<open>
  The data bytes of the rows of an image in a mode, as the converter stores them, and
  their number per row.
\<close>

definition row_length :: "image \<Rightarrow> cb \<Rightarrow> nat" where
  "row_length m c = nat (tdiv (bitsPerPixel c * Dx (bounds m) + 7) 8)"

definition raw_rows :: "image \<Rightarrow> cb \<Rightarrow> bytes list" where
  "raw_rows m c =
     map (\<lambda>y. fit (row_length m c) (scanline m c y))
       [sint (Min_Y (bounds m)) .. sint (Max_Y (bounds m)) - 1]"

text \<open>
  Every row filtered by the filter that the exhaustive selection chooses for it, with the
  unfiltered row before it as the previous row, and the tag of the filter in front.
\<close>

fun filtered_rows :: "(u8 \<Rightarrow> u8 \<Rightarrow> u8 \<Rightarrow> u8) \<Rightarrow> nat \<Rightarrow> bytes \<Rightarrow> bytes list \<Rightarrow> bytes list" where
  "filtered_rows paeth bpp prev [] = []"
| "filtered_rows paeth bpp prev (cur # rest) =
     (of_nat (exhaustive_filter paeth bpp cur prev)
        # filtered_row paeth bpp cur prev (exhaustive_filter paeth bpp cur prev))
       # filtered_rows paeth bpp cur rest"

section \<open>The chunk sequence of an encode\<close>

text \<open>
  A chunk by its name and payload, and the bytes of a sequence of chunks in the stream.
\<close>

datatype chunk = Chunk string bytes

fun chunk_bytes :: "extern \<Rightarrow> chunk \<Rightarrow> bytes" where
  "chunk_bytes X (Chunk name b) = frame X name b"

definition stream :: "extern \<Rightarrow> chunk list \<Rightarrow> bytes" where
  "stream X cs = concat (map (chunk_bytes X) cs)"

text \<open>
  A part of a session leads from \<open>e\<close> to \<open>e'\<close> and its chunks are \<open>cs\<close>: the level and
  the mode are kept, and if \<open>e'\<close> holds no error then \<open>e\<close> held none and the sink has
  received exactly the bytes of \<open>cs\<close>.
\<close>

definition emits :: "extern \<Rightarrow> encoder \<Rightarrow> encoder \<Rightarrow> chunk list \<Rightarrow> bool" where
  "emits X e e' cs \<longleftrightarrow>
     e_level e' = e_level e \<and> e_cb e' = e_cb e
     \<and> (e_err e' = None \<longrightarrow>
          e_err e = None \<and> sink_bytes (e_w e') = sink_bytes (e_w e) @ stream X cs)"

text \<open>
  The chunks of the specification, each with the payload it describes: the ancillary
  chunks of a metadata bundle, one for each field that is present. A compressed payload
  is what the compressor returns at the level of the session; a chunk whose compression
  fails is not written (the encode then fails).
\<close>

definition gama_chunks :: "metadata \<Rightarrow> chunk list" where
  "gama_chunks md = (case Gamma md of None \<Rightarrow> [] | Some g \<Rightarrow> [Chunk ''gAMA'' (be32 g)])"

definition chrm_chunks :: "metadata \<Rightarrow> chunk list" where
  "chrm_chunks md =
     (case Chroma md of
        None \<Rightarrow> []
      | Some c \<Rightarrow>
          [Chunk ''cHRM''
             (be32 (WhiteX c) @ be32 (WhiteY c) @ be32 (RedX c) @ be32 (RedY c)
                @ be32 (GreenX c) @ be32 (GreenY c) @ be32 (BlueX c) @ be32 (BlueY c))])"

definition srgb_chunks :: "metadata \<Rightarrow> chunk list" where
  "srgb_chunks md =
     (case SRGBIntent md of None \<Rightarrow> [] | Some i \<Rightarrow> [Chunk ''sRGB'' [word_of_int i]])"

definition time_chunks :: "metadata \<Rightarrow> chunk list" where
  "time_chunks md =
     (case LastModified md of
        None \<Rightarrow> []
      | Some utc \<Rightarrow>
          [Chunk ''tIME''
             (be16 (word_of_int (Year utc))
                @ [word_of_int (Month utc), word_of_int (Day utc), word_of_int (Hour utc),
                   word_of_int (Minute utc), word_of_int (Second utc)])])"

definition phys_chunks :: "metadata \<Rightarrow> chunk list" where
  "phys_chunks md =
     (case Dimension md of
        None \<Rightarrow> []
      | Some d \<Rightarrow>
          [Chunk ''pHYs''
             (be32 (word_of_int (dim_X d)) @ be32 (word_of_int (dim_Y d))
                @ [word_of_int (dim_Unit d)])])"

definition hist_chunks :: "metadata option \<Rightarrow> chunk list" where
  "hist_chunks m =
     (case m of
        None \<Rightarrow> []
      | Some md \<Rightarrow>
          (case Histogram md of None \<Rightarrow> [] | Some h \<Rightarrow> [Chunk ''hIST'' (concat (map be16 h))]))"

definition text_chunk :: "text_entry \<Rightarrow> chunk list" where
  "text_chunk t = [Chunk ''tEXt'' (Key t @ [0] @ range_bytes (Value t))]"

definition ztxt_chunk :: "extern \<Rightarrow> int \<Rightarrow> text_entry \<Rightarrow> chunk list" where
  "ztxt_chunk X lvl t =
     (case zlib_stream X lvl (Value t) of
        Inl x \<Rightarrow> []
      | Inr z \<Rightarrow> [Chunk ''zTXt'' (Key t @ [0, 0] @ z)])"

definition itxt_chunk :: "extern \<Rightarrow> int \<Rightarrow> text_entry \<Rightarrow> chunk list" where
  "itxt_chunk X lvl t =
     (case zlib_stream X lvl (Value t) of
        Inl x \<Rightarrow> []
      | Inr z \<Rightarrow>
          [Chunk ''iTXt''
             (Key t @ [0] @ [1] @ [0] @ LanguageTag t @ [0] @ TranslatedKey t @ [0] @ z)])"

definition entry_chunks :: "extern \<Rightarrow> int \<Rightarrow> text_entry \<Rightarrow> chunk list" where
  "entry_chunks X lvl t =
     (case EntryType t of
        EtText \<Rightarrow> text_chunk t
      | EtZtext \<Rightarrow> ztxt_chunk X lvl t
      | EtItext \<Rightarrow> itxt_chunk X lvl t
      | EtOther \<Rightarrow> [])"

text \<open>
  The iCCP chunk of a bundle in which an ICC object is registered: the profile name, a
  NUL, the compression method and the compressed encoding of the object. A bundle that
  carries a raw ICC blob and no object is \<open>raw_icc_alone\<close>; this description says nothing
  about the chunk of such a bundle, and the statement about the order leaves it out.
\<close>

definition raw_icc_alone :: "metadata option \<Rightarrow> bool" where
  "raw_icc_alone m \<longleftrightarrow>
     (case m of None \<Rightarrow> False | Some md \<Rightarrow> icc md = None \<and> rawIcc md \<noteq> [])"

definition iccp_chunks :: "extern \<Rightarrow> int \<Rightarrow> metadata \<Rightarrow> chunk list" where
  "iccp_chunks X lvl md =
     (case icc md of
        Some (Inr profile) \<Rightarrow>
          (case zlib_stream X lvl profile of
             Inl x \<Rightarrow> []
           | Inr z \<Rightarrow> [Chunk ''iCCP'' (iccName md @ [0] @ [0] @ z)])
      | _ \<Rightarrow> [])"

definition xmp_chunks :: "extern \<Rightarrow> int \<Rightarrow> metadata \<Rightarrow> chunk list" where
  "xmp_chunks X lvl md =
     (case xmp md of
        Some (Inl x) \<Rightarrow> []
      | Some (Inr encoded) \<Rightarrow>
          itxt_chunk X lvl
            \<lparr>Key = xmpTextKey X, Value = encoded, EntryType = EtItext,
             LanguageTag = [], TranslatedKey = []\<rparr>
      | None \<Rightarrow>
          (case rawXmp md of
             None \<Rightarrow> []
           | Some r \<Rightarrow>
               itxt_chunk X lvl
                 \<lparr>Key = xmpTextKey X, Value = r, EntryType = EtItext,
                  LanguageTag = [], TranslatedKey = []\<rparr>))"

text \<open>
  The order of the specification for the chunks of a bundle: gAMA, cHRM, sRGB, tIME,
  iCCP, pHYs, XMP as iTXt, then the text entries in their order.
\<close>

definition metadata_chunks :: "extern \<Rightarrow> int \<Rightarrow> metadata option \<Rightarrow> chunk list" where
  "metadata_chunks X lvl m =
     (case m of
        None \<Rightarrow> []
      | Some md \<Rightarrow>
          gama_chunks md @ chrm_chunks md @ srgb_chunks md @ time_chunks md
            @ iccp_chunks X lvl md @ phys_chunks md @ xmp_chunks X lvl md
            @ concat (map (entry_chunks X lvl) (Text md)))"

text \<open>
  The IHDR payload of an image: width, height, bit depth and colour type of its mode,
  then the compression method, the filter method and the interlace method, all 0.
\<close>

definition bit_depth :: "cb \<Rightarrow> u8" where
  "bit_depth c =
     (case c of
        cbG8 \<Rightarrow> 8 | cbTC8 \<Rightarrow> 8 | cbP8 \<Rightarrow> 8 | cbP4 \<Rightarrow> 4 | cbP2 \<Rightarrow> 2 | cbP1 \<Rightarrow> 1
      | cbTCA8 \<Rightarrow> 8 | cbG16 \<Rightarrow> 16 | cbTC16 \<Rightarrow> 16 | cbTCA16 \<Rightarrow> 16 | cbInvalid \<Rightarrow> 0)"

definition colour_type :: "extern \<Rightarrow> cb \<Rightarrow> u8" where
  "colour_type X c =
     (case c of
        cbG8 \<Rightarrow> ctGrayscale X | cbG16 \<Rightarrow> ctGrayscale X
      | cbTC8 \<Rightarrow> ctTrueColor X | cbTC16 \<Rightarrow> ctTrueColor X
      | cbTCA8 \<Rightarrow> ctTrueColorAlpha X | cbTCA16 \<Rightarrow> ctTrueColorAlpha X
      | cbInvalid \<Rightarrow> 0
      | _ \<Rightarrow> ctPaletted X)"

definition ihdr_payload :: "extern \<Rightarrow> image \<Rightarrow> bytes" where
  "ihdr_payload X m =
     be32 (ucast (Max_X (bounds m) - Min_X (bounds m)))
       @ be32 (ucast (Max_Y (bounds m) - Min_Y (bounds m)))
       @ [bit_depth (select_cb m), colour_type X (select_cb m), 0, 0, 0]"

text \<open>
  A captured chunk of a deferred source, minus its CRC; PLTE and tRNS of a palette; the
  rows that reach the compressor for an image, filtered or not.
\<close>

definition captured :: "string \<Rightarrow> bytes option \<Rightarrow> chunk list" where
  "captured name b = (case b of None \<Rightarrow> [] | Some b \<Rightarrow> [Chunk name (take (length b - 4) b)])"

definition palette_chunks :: "nrgba list \<Rightarrow> chunk list" where
  "palette_chunks p =
     Chunk ''PLTE'' (plte_payload p)
       # (if list_all fully_opaque p then []
          else [Chunk ''tRNS'' (map c_A (take (Suc (last_nonopaque p)) p))])"

definition emitted_rows :: "extern \<Rightarrow> int \<Rightarrow> image \<Rightarrow> bytes list" where
  "emitted_rows X lvl m =
     (if uses_filter lvl (select_cb m)
      then filtered_rows (ext_paeth X) (nat (tdiv (bitsPerPixel (select_cb m)) 8))
             (replicate (row_length m (select_cb m)) 0) (raw_rows m (select_cb m))
      else map ((#) (of_nat ftNone)) (raw_rows m (select_cb m)))"

text \<open>
  The parts that depend on the source. IHDR: the header of a fresh image, the captured
  header of a deferred source. PLTE and tRNS: those of the palette of a fresh paletted
  image, the captured ones of a deferred source. IDAT: for a fresh image the slices that
  the buffered compressor hands over, one chunk each; for a deferred source the captured
  blob, if there is one.
\<close>

definition ihdr_chunks :: "extern \<Rightarrow> source \<Rightarrow> chunk list" where
  "ihdr_chunks X m =
     (case m of
        Fresh im \<Rightarrow> [Chunk ''IHDR'' (ihdr_payload X im)]
      | Deferred di \<Rightarrow> captured ''IHDR'' (Some (ihdr di)))"

definition plte_trns_chunks :: "source \<Rightarrow> chunk list" where
  "plte_trns_chunks m =
     (case m of
        Fresh im \<Rightarrow> (case palette im of None \<Rightarrow> [] | Some p \<Rightarrow> palette_chunks p)
      | Deferred di \<Rightarrow> captured ''PLTE'' (plte di) @ captured ''tRNS'' (trns di))"

definition idat_chunks :: "extern \<Rightarrow> int \<Rightarrow> source \<Rightarrow> chunk list" where
  "idat_chunks X lvl m =
     (case m of
        Fresh im \<Rightarrow> map (Chunk ''IDAT'') (zlib_writes X lvl (emitted_rows X lvl im))
      | Deferred di \<Rightarrow> captured ''IDAT'' (idat di))"

text \<open>
  The contract of the buffered compressor (\<^verbatim>\<open>bufio\<close> over \<^verbatim>\<open>zlib\<close>, both outside the
  sources) that the claim relies on: for the rows of a fresh image it hands at least one
  slice to the encoder, since every zlib stream has a header and a trailer, which the
  flush at the end of \<^verbatim>\<open>writeIDATs\<close> writes out.
\<close>

definition compressor_writes :: "extern \<Rightarrow> int \<Rightarrow> source \<Rightarrow> bool" where
  "compressor_writes X lvl m \<longleftrightarrow>
     (case m of
        Fresh im \<Rightarrow> zlib_writes X lvl (emitted_rows X lvl im) \<noteq> []
      | Deferred di \<Rightarrow> True)"

text \<open>
  The whole sequence after the signature, in the order of the specification: IHDR, the
  chunks of the bundle, PLTE and tRNS, hIST, the IDAT chunks, IEND.
\<close>

definition expected_chunks :: "extern \<Rightarrow> int \<Rightarrow> source \<Rightarrow> metadata option \<Rightarrow> chunk list" where
  "expected_chunks X lvl m md =
     ihdr_chunks X m @ metadata_chunks X lvl md @ plte_trns_chunks m @ hist_chunks md
       @ idat_chunks X lvl m @ [Chunk ''IEND'' []]"

definition chunk_names :: "chunk list \<Rightarrow> string list" where
  "chunk_names cs = map (\<lambda>c. case c of Chunk name b \<Rightarrow> name) cs"

section \<open>The filter selector: the greedy loops against the exhaustive selection\<close>


declare for_sum.simps [simp del] for_sum_until.simps [simp del] none_sum_until.simps [simp del]

lemma abs8_nonneg: "0 \<le> abs8 d"
proof -
  have "uint d < 256" using uint_bounded [of d] by simp
  then show ?thesis by (simp add: abs8_def)
qed

lemma for_sum_char:
  assumes "\<And>i. lo \<le> i \<Longrightarrow> i < hi \<Longrightarrow> f i = Some (g i)" and "hi \<le> length dst"
  shows "for_sum f lo hi dst s =
           Some (map (\<lambda>i. if lo \<le> i \<and> i < hi then g i else dst ! i) [0..<length dst],
                 s + sum_list (map (\<lambda>i. abs8 (g i)) [lo..<hi]))"
  using assms
proof (induction f lo hi dst s rule: for_sum.induct)
  case (1 f i n dst sm)
  show ?case
  proof (cases "i < n")
    case True
    have fi: "f i = Some (g i)" using "1.prems"(1) True by simp
    have il: "i < length dst" using "1.prems"(2) True by simp
    have IH: "for_sum f (Suc i) n (dst[i := g i]) (sm + abs8 (g i)) =
        Some (map (\<lambda>j. if Suc i \<le> j \<and> j < n then g j else dst[i := g i] ! j) [0..<length (dst[i := g i])],
              sm + abs8 (g i) + sum_list (map (\<lambda>i. abs8 (g i)) [Suc i..<n]))"
      using "1.IH" [OF True fi il] "1.prems" by simp
    have eq: "map (\<lambda>j. if Suc i \<le> j \<and> j < n then g j else dst[i := g i] ! j) [0..<length dst]
            = map (\<lambda>j. if i \<le> j \<and> j < n then g j else dst ! j) [0..<length dst]"
    proof (rule map_cong [OF refl])
      fix j assume "j \<in> set [0..<length dst]"
      show "(if Suc i \<le> j \<and> j < n then g j else dst[i := g i] ! j) = (if i \<le> j \<and> j < n then g j else dst ! j)"
        using True il by (cases "j = i") auto
    qed
    show ?thesis
      by (subst for_sum.simps) (simp add: True fi il IH eq upt_conv_Cons)
  next
    case False
    then have "map (\<lambda>j. if i \<le> j \<and> j < n then g j else dst ! j) [0..<length dst] = map ((!) dst) [0..<length dst]"
      by (intro map_cong [OF refl]) auto
    with False show ?thesis
      by (subst for_sum.simps) (simp add: map_nth)
  qed
qed

lemma for_sum_until_char:
  assumes "\<And>i. lo \<le> i \<Longrightarrow> i < hi \<Longrightarrow> f i = Some (g i)" and "hi \<le> length dst" and "lo \<le> hi"
  shows "\<exists>dst' s' k. for_sum_until f lo hi dst s best = Some (dst', s')
           \<and> ((s' < best) = (s + sum_list (map (\<lambda>i. abs8 (g i)) [lo..<hi]) < best))
           \<and> (s' < best \<longrightarrow> s' = s + sum_list (map (\<lambda>i. abs8 (g i)) [lo..<hi]))
           \<and> lo \<le> k \<and> k \<le> hi \<and> (s' < best \<longrightarrow> k = hi)
           \<and> dst' = map (\<lambda>i. if lo \<le> i \<and> i < k then g i else dst ! i) [0..<length dst]"
  using assms
proof (induction f lo hi dst s best rule: for_sum_until.induct)
  case (1 f i n dst sm best)
  show ?case
  proof (cases "i < n")
    case True
    have fi: "f i = Some (g i)" using "1.prems"(1) True by simp
    have il: "i < length dst" using "1.prems"(2) True by simp
    have nn: "0 \<le> sum_list (map (\<lambda>i. abs8 (g i)) [Suc i..<n])"
      by (rule sum_list_nonneg) (auto simp: abs8_nonneg)
    have eq: "map (\<lambda>j. if Suc i \<le> j \<and> j < k then g j else dst[i := g i] ! j) [0..<length dst]
            = map (\<lambda>j. if i \<le> j \<and> j < k then g j else dst ! j) [0..<length dst]"
      if "Suc i \<le> k" for k
    proof (rule map_cong [OF refl])
      fix j assume "j \<in> set [0..<length dst]"
      show "(if Suc i \<le> j \<and> j < k then g j else dst[i := g i] ! j) = (if i \<le> j \<and> j < k then g j else dst ! j)"
        using that il by (cases "j = i") auto
    qed
    show ?thesis
    proof (cases "sm + abs8 (g i) \<ge> best")
      case brk: True
      have "map (\<lambda>j. if i \<le> j \<and> j < Suc i then g j else dst ! j) [0..<length dst] = dst[i := g i]"
        using il by (intro nth_equalityI) (auto simp: nth_list_update)
      then show ?thesis
        using brk nn True
        by (subst for_sum_until.simps) (auto simp add: fi il upt_conv_Cons intro!: exI [of _ "Suc i"])
    next
      case nobrk: False
      from "1.IH" [OF True fi il] nobrk "1.prems" True
      obtain dst' s' k where
        r: "for_sum_until f (Suc i) n (dst[i := g i]) (sm + abs8 (g i)) best = Some (dst', s')"
          "(s' < best) = (sm + abs8 (g i) + sum_list (map (\<lambda>i. abs8 (g i)) [Suc i..<n]) < best)"
          "s' < best \<longrightarrow> s' = sm + abs8 (g i) + sum_list (map (\<lambda>i. abs8 (g i)) [Suc i..<n])"
          "Suc i \<le> k" "k \<le> n" "s' < best \<longrightarrow> k = n"
          "dst' = map (\<lambda>j. if Suc i \<le> j \<and> j < k then g j else dst[i := g i] ! j) [0..<length dst]"
        by auto
      show ?thesis
        using r nobrk eq [OF r(4)]
        by (subst for_sum_until.simps) (auto simp add: True fi il upt_conv_Cons add.assoc intro!: exI [of _ k])
    qed
  next
    case False
    then have "map (\<lambda>j. if i \<le> j \<and> j < i then g j else dst ! j) [0..<length dst] = map ((!) dst) [0..<length dst]"
      by (intro map_cong [OF refl]) auto
    with False "1.prems" show ?thesis
      by (subst for_sum_until.simps) (auto simp add: map_nth intro!: exI [of _ i])
  qed
qed

lemma none_sum_until_char:
  assumes "hi \<le> length cdat0"
  shows "\<exists>s'. none_sum_until cdat0 lo hi s best = Some s'
           \<and> ((s' < best) = (s + sum_list (map (\<lambda>i. abs8 (cdat0 ! i)) [lo..<hi]) < best))
           \<and> (s' < best \<longrightarrow> s' = s + sum_list (map (\<lambda>i. abs8 (cdat0 ! i)) [lo..<hi]))"
  using assms
proof (induction cdat0 lo hi s best rule: none_sum_until.induct)
  case (1 cdat0 i n sm best)
  show ?case
  proof (cases "i < n")
    case True
    have fi: "rd cdat0 i = Some (cdat0 ! i)" using "1.prems" True by (simp add: rd_def)
    have nn: "0 \<le> sum_list (map (\<lambda>i. abs8 (cdat0 ! i)) [Suc i..<n])"
      by (rule sum_list_nonneg) (auto simp: abs8_nonneg)
    show ?thesis
    proof (cases "sm + abs8 (cdat0 ! i) \<ge> best")
      case brk: True
      show ?thesis
        using brk nn by (subst none_sum_until.simps) (simp add: True fi upt_conv_Cons)
    next
      case nobrk: False
      from "1.IH" [OF True fi] nobrk "1.prems"
      obtain s' where
        r: "none_sum_until cdat0 (Suc i) n (sm + abs8 (cdat0 ! i)) best = Some s'"
          "(s' < best) = (sm + abs8 (cdat0 ! i) + sum_list (map (\<lambda>i. abs8 (cdat0 ! i)) [Suc i..<n]) < best)"
          "s' < best \<longrightarrow> s' = sm + abs8 (cdat0 ! i) + sum_list (map (\<lambda>i. abs8 (cdat0 ! i)) [Suc i..<n])"
        by auto
      show ?thesis
        using r nobrk by (subst none_sum_until.simps) (simp add: True fi upt_conv_Cons add.assoc)
    qed
  next
    case False
    then show ?thesis
      by (subst none_sum_until.simps) simp
  qed
qed


lemma keep_best_snoc:
  "keep_best cost (fs @ [x]) b =
     (if cost x < cost (keep_best cost fs b) then x else keep_best cost fs b)"
  by (induction fs arbitrary: b) auto

lemma keep_best_first_min:
  "\<exists>j<length (b # fs). keep_best cost fs b = (b # fs) ! j
      \<and> (\<forall>k<length (b # fs). cost ((b # fs) ! j) \<le> cost ((b # fs) ! k))
      \<and> (\<forall>k<j. cost ((b # fs) ! j) < cost ((b # fs) ! k))"
proof (induction fs rule: rev_induct)
  case Nil
  show ?case by simp
next
  case (snoc x fs)
  then obtain j where j: "j < length (b # fs)" "keep_best cost fs b = (b # fs) ! j"
      "\<forall>k<length (b # fs). cost ((b # fs) ! j) \<le> cost ((b # fs) ! k)"
      "\<forall>k<j. cost ((b # fs) ! j) < cost ((b # fs) ! k)"
    by blast
  let ?xs = "b # fs @ [x]"
  have pre: "?xs ! k = (b # fs) ! k" if "k < length (b # fs)" for k
    using that by (metis append_Cons nth_append)
  have last: "?xs ! length (b # fs) = x"
    by (metis append_Cons nth_append_length)
  show ?case
  proof (cases "cost x < cost (keep_best cost fs b)")
    case True
    have "keep_best cost (fs @ [x]) b = ?xs ! length (b # fs)"
      using True by (simp only: keep_best_snoc last if_True)
    moreover have "\<forall>k<length ?xs. cost (?xs ! length (b # fs)) \<le> cost (?xs ! k)"
    proof (intro allI impI)
      fix k assume "k < length ?xs"
      then consider "k < length (b # fs)" | "k = length (b # fs)" by fastforce
      then show "cost (?xs ! length (b # fs)) \<le> cost (?xs ! k)"
      proof cases
        case 1
        then show ?thesis using True j(2,3) pre [OF 1] last by (metis less_imp_le order_trans)
      next
        case 2
        then show ?thesis by simp
      qed
    qed
    moreover have "\<forall>k<length (b # fs). cost (?xs ! length (b # fs)) < cost (?xs ! k)"
    proof (intro allI impI)
      fix k assume k: "k < length (b # fs)"
      then show "cost (?xs ! length (b # fs)) < cost (?xs ! k)"
        using True j(2,3) pre [OF k] last by (metis less_le_trans)
    qed
    ultimately show ?thesis
      by (intro exI [of _ "length (b # fs)"]) simp
  next
    case False
    have "keep_best cost (fs @ [x]) b = ?xs ! j"
      using False j(1,2) pre by (simp only: keep_best_snoc if_False)
    moreover have "\<forall>k<length ?xs. cost (?xs ! j) \<le> cost (?xs ! k)"
    proof (intro allI impI)
      fix k assume "k < length ?xs"
      then consider "k < length (b # fs)" | "k = length (b # fs)" by fastforce
      then show "cost (?xs ! j) \<le> cost (?xs ! k)"
      proof cases
        case 1
        then show ?thesis using j(1,3) pre by metis
      next
        case 2
        then show ?thesis using False j(1,2) pre last by (metis not_less)
      qed
    qed
    moreover have "\<forall>k<j. cost (?xs ! j) < cost (?xs ! k)"
      using j(1,4) pre by (metis less_trans)
    ultimately show ?thesis
      using j(1) by (intro exI [of _ j]) simp
  qed
qed





lemma two_loops:
  assumes f0: "\<And>i. i < b \<Longrightarrow> f0 i = Some (g i)"
      and f: "\<And>i. b \<le> i \<Longrightarrow> i < n \<Longrightarrow> f i = Some (g i)"
      and bn: "b \<le> n" and len: "length dst = n"
  shows "\<exists>dst0 s0 dst' s' k.
           for_sum f0 0 b dst 0 = Some (dst0, s0)
         \<and> for_sum_until f b n dst0 s0 best = Some (dst', s')
         \<and> ((s' < best) = (row_sum (map g [0..<n]) < best))
         \<and> (s' < best \<longrightarrow> s' = row_sum (map g [0..<n]))
         \<and> b \<le> k \<and> k \<le> n \<and> (s' < best \<longrightarrow> k = n) \<and> length dst' = n
         \<and> (\<forall>i<k. dst' ! i = g i)
         \<and> (s' < best \<longrightarrow> dst' = map g [0..<n])"
proof -
  let ?dst0 = "map (\<lambda>i. if 0 \<le> i \<and> i < b then g i else dst ! i) [0..<length dst]"
  let ?s0 = "0 + sum_list (map (\<lambda>i. abs8 (g i)) [0..<b])"
  have one: "for_sum f0 0 b dst 0 = Some (?dst0, ?s0)"
    using bn len by (intro for_sum_char) (auto simp: f0)
  have l0: "length ?dst0 = n" using len by simp
  from for_sum_until_char [of b n f g ?dst0 ?s0 best] f bn l0
  obtain dst' s' k where
    two: "for_sum_until f b n ?dst0 ?s0 best = Some (dst', s')"
    and lt: "(s' < best) = (?s0 + sum_list (map (\<lambda>i. abs8 (g i)) [b..<n]) < best)"
    and eq: "s' < best \<longrightarrow> s' = ?s0 + sum_list (map (\<lambda>i. abs8 (g i)) [b..<n])"
    and k: "b \<le> k" "k \<le> n" "s' < best \<longrightarrow> k = n"
    and d: "dst' = map (\<lambda>i. if b \<le> i \<and> i < k then g i else ?dst0 ! i) [0..<length ?dst0]"
    by auto
  have split: "[0..<n] = [0..<b] @ [b..<n]"
    using bn by (metis le_add_diff_inverse upt_add_eq_append zero_le)
  have tot: "?s0 + sum_list (map (\<lambda>i. abs8 (g i)) [b..<n]) = row_sum (map g [0..<n])"
  proof -
    have "row_sum (map g [0..<n]) = sum_list (map (\<lambda>i. abs8 (g i)) ([0..<b] @ [b..<n]))"
      using split by (simp add: row_sum_def comp_def)
    then show ?thesis by simp
  qed
  have ld: "length dst' = n" using d l0 by simp
  have nth: "\<forall>i<k. dst' ! i = g i"
  proof (intro allI impI)
    fix i assume "i < k"
    then have "i < n" using k(2) by simp
    then show "dst' ! i = g i"
      using \<open>i < k\<close> len by (simp add: d)
  qed
  have full: "dst' = map g [0..<n]" if "s' < best"
  proof (rule nth_equalityI)
    show "length dst' = length (map g [0..<n])" using ld by simp
  next
    fix i assume "i < length dst'"
    then have "i < k" using that k(3) ld by simp
    then show "dst' ! i = map g [0..<n] ! i" using nth \<open>i < length dst'\<close> ld by simp
  qed
  have lt': "(s' < best) = (row_sum (map g [0..<n]) < best)"
    using lt tot by simp
  have eq': "s' < best \<longrightarrow> s' = row_sum (map g [0..<n])"
    using eq tot by simp
  show ?thesis
    using one two lt' eq' k ld nth full by blast
qed

lemma row_sum_nth: "row_sum xs = sum_list (map (\<lambda>i. abs8 (xs ! i)) [0..<length xs])"
proof -
  have "map (\<lambda>i. abs8 (xs ! i)) [0..<length xs] = map abs8 (map ((!) xs) [0..<length xs])"
    by simp
  then show ?thesis by (simp only: row_sum_def map_nth)
qed

lemma filter_png_char:
  assumes ok: "rows_ok cr pr n" and bpp: "0 \<le> bpp" "bpp \<le> int n"
  shows "\<exists>cr' k. filter_png paeth cr pr bpp
             = Some (exhaustive_filter paeth (nat bpp) (tl (cr0 cr)) (tl pr), cr')
         \<and> cr0 cr' = cr0 cr
         \<and> rows_ok cr' pr n
         \<and> hd (cr1 cr') = hd (cr1 cr) \<and> hd (cr2 cr') = hd (cr2 cr)
         \<and> hd (cr3 cr') = hd (cr3 cr) \<and> hd (cr4 cr') = hd (cr4 cr)
         \<and> tl (cr_at cr' (exhaustive_filter paeth (nat bpp) (tl (cr0 cr)) (tl pr)))
             = filtered_row paeth (nat bpp) (tl (cr0 cr)) (tl pr)
                 (exhaustive_filter paeth (nat bpp) (tl (cr0 cr)) (tl pr))
         \<and> nat bpp \<le> k \<and> k \<le> n
         \<and> (\<forall>i<k. tl (cr3 cr') ! i = average_row (nat bpp) (tl (cr0 cr)) (tl pr) ! i)
         \<and> (exhaustive_filter paeth (nat bpp) (tl (cr0 cr)) (tl pr) = ftAverage \<longrightarrow> k = n)"
proof -
  define cur prev b where "cur = tl (cr0 cr)" and "prev = tl pr" and "b = nat bpp"
  have len: "length cur = n" "length prev = n" "length (tl (cr1 cr)) = n" "length (tl (cr2 cr)) = n"
      "length (tl (cr3 cr)) = n" "length (tl (cr4 cr)) = n"
    using ok by (simp_all add: rows_ok_def cur_def prev_def)
  have ne: "cr0 cr \<noteq> []" "cr1 cr \<noteq> []" "cr2 cr \<noteq> []" "cr3 cr \<noteq> []" "cr4 cr \<noteq> []" "pr \<noteq> []"
    using ok by (auto simp: rows_ok_def)
  have bn: "b \<le> n" using bpp by (simp add: b_def)
  have nb: "\<not> bpp < 0" using bpp by simp
  define U P N S A where "U = row_sum (up_row cur prev)" and "P = row_sum (paeth_row paeth b cur prev)"
    and "N = row_sum cur" and "S = row_sum (sub_row b cur)" and "A = row_sum (average_row b cur prev)"
  \<comment> \<open>The up filter.\<close>
  have up: "for_sum (up_byte cur prev) 0 n (tl (cr2 cr)) 0 = Some (up_row cur prev, U)"
  proof -
    have "for_sum (up_byte cur prev) 0 n (tl (cr2 cr)) 0
        = Some (map (\<lambda>i. if 0 \<le> i \<and> i < n then cur ! i - prev ! i else tl (cr2 cr) ! i) [0..<length (tl (cr2 cr))],
                0 + sum_list (map (\<lambda>i. abs8 (cur ! i - prev ! i)) [0..<n]))"
      using len by (intro for_sum_char) (auto simp: up_byte_def rd_def)
    moreover have "map (\<lambda>i. if 0 \<le> i \<and> i < n then cur ! i - prev ! i else tl (cr2 cr) ! i) [0..<length (tl (cr2 cr))]
        = up_row cur prev"
      using len by (simp add: up_row_def)
    moreover have "sum_list (map (\<lambda>i. abs8 (cur ! i - prev ! i)) [0..<n]) = U"
      using len by (simp add: U_def row_sum_def up_row_def comp_def)
    ultimately show ?thesis by simp
  qed
  \<comment> \<open>The Paeth filter.\<close>
  define gP where "gP = (\<lambda>i. if i < b then cur ! i - prev ! i
                       else cur ! i - paeth (cur ! (i - b)) (prev ! i) (prev ! (i - b)))"
  have prow: "map gP [0..<n] = paeth_row paeth b cur prev"
    using len by (simp add: paeth_row_def gP_def)
  have pf0: "\<And>i. i < b \<Longrightarrow> up_byte cur prev i = Some (gP i)"
    using bn len by (simp add: up_byte_def rd_def gP_def)
  have pf: "\<And>i. b \<le> i \<Longrightarrow> i < n \<Longrightarrow> paeth_byte paeth cur prev b i = Some (gP i)"
    using bn len by (simp add: paeth_byte_def rd_def gP_def)
  from two_loops [where ?f0.0 = "up_byte cur prev" and f = "paeth_byte paeth cur prev b" and g = gP and best = U, OF pf0 pf bn len(6), unfolded prow]
  obtain c4a sP0 c4 sP where
    p1: "for_sum (up_byte cur prev) 0 b (tl (cr4 cr)) 0 = Some (c4a, sP0)"
    and p2: "for_sum_until (paeth_byte paeth cur prev b) b n c4a sP0 U = Some (c4, sP)"
    and p3: "(sP < U) = (P < U)" "sP < U \<longrightarrow> sP = P" "length c4 = n"
        "sP < U \<longrightarrow> c4 = paeth_row paeth b cur prev"
    unfolding P_def by blast
  define best2 where "best2 = (if P < U then P else U)"
  \<comment> \<open>The none filter.\<close>
  from none_sum_until_char [of n cur 0 0 best2] len
  obtain sN where
    n1: "none_sum_until cur 0 n 0 best2 = Some sN"
    and n2: "(sN < best2) = (N < best2)" "sN < best2 \<longrightarrow> sN = N"
    unfolding N_def row_sum_nth [of cur] by auto
  define best3 where "best3 = (if N < best2 then N else best2)"
  \<comment> \<open>The sub filter.\<close>
  define gS where "gS = (\<lambda>i. if i < b then cur ! i else cur ! i - cur ! (i - b))"
  have srow: "map gS [0..<n] = sub_row b cur"
    using len by (simp add: sub_row_def gS_def)
  have sf0: "\<And>i. i < b \<Longrightarrow> rd cur i = Some (gS i)"
    using bn len by (simp add: rd_def gS_def)
  have sf: "\<And>i. b \<le> i \<Longrightarrow> i < n \<Longrightarrow> sub_byte cur b i = Some (gS i)"
    using bn len by (simp add: sub_byte_def rd_def gS_def)
  from two_loops [where ?f0.0 = "rd cur" and f = "sub_byte cur b" and g = gS and best = best3, OF sf0 sf bn len(3), unfolded srow]
  obtain c1a sS0 c1 sS where
    s1: "for_sum (rd cur) 0 b (tl (cr1 cr)) 0 = Some (c1a, sS0)"
    and s2: "for_sum_until (sub_byte cur b) b n c1a sS0 best3 = Some (c1, sS)"
    and s3: "(sS < best3) = (S < best3)" "sS < best3 \<longrightarrow> sS = S" "length c1 = n"
        "sS < best3 \<longrightarrow> c1 = sub_row b cur"
    unfolding S_def by blast
  define best4 where "best4 = (if S < best3 then S else best3)"
  \<comment> \<open>The average filter.\<close>
  define gA where "gA = (\<lambda>i. if i < b then cur ! i - prev ! i div 2
                       else cur ! i - word_of_int ((uint (cur ! (i - b)) + uint (prev ! i)) div 2))"
  have arow: "map gA [0..<n] = average_row b cur prev"
    using len by (simp add: average_row_def gA_def)
  have af0: "\<And>i. i < b \<Longrightarrow> avg_byte0 cur prev i = Some (gA i)"
    using bn len by (simp add: avg_byte0_def rd_def gA_def)
  have af: "\<And>i. b \<le> i \<Longrightarrow> i < n \<Longrightarrow> avg_byte cur prev b i = Some (gA i)"
    using bn len by (simp add: avg_byte_def rd_def gA_def)
  from two_loops [where ?f0.0 = "avg_byte0 cur prev" and f = "avg_byte cur prev b" and g = gA and best = best4, OF af0 af bn len(5), unfolded arow]
  obtain c3a sA0 c3 sA k where
    a1: "for_sum (avg_byte0 cur prev) 0 b (tl (cr3 cr)) 0 = Some (c3a, sA0)"
    and a2: "for_sum_until (avg_byte cur prev b) b n c3a sA0 best4 = Some (c3, sA)"
    and a3: "(sA < best4) = (A < best4)" "length c3 = n"
        "sA < best4 \<longrightarrow> c3 = average_row b cur prev"
    and k: "b \<le> k" "k \<le> n" "\<forall>i<k. c3 ! i = gA i" "sA < best4 \<longrightarrow> k = n"
    unfolding A_def by blast
  define ftF where "ftF = (if A < best4 then ftAverage else if S < best3 then ftSub
      else if N < best2 then ftNone else if P < U then ftPaeth else ftUp)"
  have b2: "(if sP < U then sP else U) = best2" using p3 by (simp add: best2_def)
  have b3: "(if sN < best2 then sN else best2) = best3" using n2 by (simp add: best3_def)
  have b4: "(if sS < best3 then sS else best3) = best4" using s3 by (simp add: best4_def)
  have case_if: "\<And>c (a::int) (x::nat) a' x' h.
      (case (if c then (a, x) else (a', x')) of (u, v) \<Rightarrow> h u v)
        = h (if c then a else a') (if c then x else x')"
    by simp
  have run: "filter_png paeth cr pr bpp
      = Some (ftF, cr\<lparr>cr1 := hd (cr1 cr) # c1, cr2 := hd (cr2 cr) # up_row cur prev,
                       cr3 := hd (cr3 cr) # c3, cr4 := hd (cr4 cr) # c4\<rparr>)"
    unfolding filter_png_def Let_def cur_def [symmetric] prev_def [symmetric] b_def [symmetric]
    using ne nb len(1)
    apply (simp add: up p1 p2 case_if b2 n1 b3 s1 s2 b4 a1 a2 split del: if_split cong del: if_weak_cong)
    apply (simp add: ftF_def a3(1) s3(1) n2(1) p3(1))
    done
  have cost: "row_sum (filtered_row paeth b cur prev ftUp) = U"
      "row_sum (filtered_row paeth b cur prev ftPaeth) = P"
      "row_sum (filtered_row paeth b cur prev ftNone) = N"
      "row_sum (filtered_row paeth b cur prev ftSub) = S"
      "row_sum (filtered_row paeth b cur prev ftAverage) = A"
    by (simp_all add: filtered_row_def U_def P_def N_def S_def A_def
          ftUp_def ftPaeth_def ftNone_def ftSub_def ftAverage_def)
  have ex: "exhaustive_filter paeth b cur prev = ftF"
    by (simp add: exhaustive_filter_def filter_order_def cost ftF_def best2_def best3_def best4_def)
  let ?cr' = "cr\<lparr>cr1 := hd (cr1 cr) # c1, cr2 := hd (cr2 cr) # up_row cur prev,
                       cr3 := hd (cr3 cr) # c3, cr4 := hd (cr4 cr) # c4\<rparr>"
  have ok': "rows_ok ?cr' pr n"
    using ok p3(3) s3(3) a3(2) len by (simp add: rows_ok_def up_row_def)
  have sel: "tl (cr_at ?cr' ftF) = filtered_row paeth b cur prev ftF"
    using p3 s3 a3 n2
    by (auto simp: ftF_def cr_at_def filtered_row_def cur_def
          ftUp_def ftPaeth_def ftNone_def ftSub_def ftAverage_def split: if_splits)
  have avg: "\<forall>i<k. tl (cr3 ?cr') ! i = average_row b cur prev ! i"
    using k(2,3) len by (simp add: arow [symmetric])
  have full: "ftF = ftAverage \<longrightarrow> k = n"
    using k(4) a3(1)
    by (auto simp: ftF_def ftUp_def ftPaeth_def ftNone_def ftSub_def ftAverage_def split: if_splits)
  show ?thesis
    unfolding cur_def [symmetric] prev_def [symmetric] b_def [symmetric] ex
    using run ok' sel avg full k(1,2)
    by (intro exI [of _ ?cr'] exI [of _ k]) simp

qed


text \<open>
  The run of the filter function in the form the row loop uses: the returned index and
  the buffer of that index, with the invariants of the buffers kept.
\<close>

lemma filter_png_selected_buffer:
  assumes "rows_ok crs pr n" and "tagged crs" and "0 \<le> bpp" and "bpp \<le> int n"
  shows "\<exists>crs'. filter_png paeth crs pr bpp
             = Some (exhaustive_filter paeth (nat bpp) (tl (cr0 crs)) (tl pr), crs')
         \<and> cr_at crs' (exhaustive_filter paeth (nat bpp) (tl (cr0 crs)) (tl pr))
             = of_nat (exhaustive_filter paeth (nat bpp) (tl (cr0 crs)) (tl pr))
                 # filtered_row paeth (nat bpp) (tl (cr0 crs)) (tl pr)
                     (exhaustive_filter paeth (nat bpp) (tl (cr0 crs)) (tl pr))
         \<and> rows_ok crs' pr n \<and> tagged crs' \<and> cr0 crs' = cr0 crs"
proof -
  let ?cost = "\<lambda>f. row_sum (filtered_row paeth (nat bpp) (tl (cr0 crs)) (tl pr) f)"
  let ?f = "exhaustive_filter paeth (nat bpp) (tl (cr0 crs)) (tl pr)"
  from filter_png_char [OF assms(1,3,4), of paeth]
  obtain crs' where run: "filter_png paeth crs pr bpp = Some (?f, crs')"
    and ok': "rows_ok crs' pr n" and c0: "cr0 crs' = cr0 crs"
    and hd: "hd (cr1 crs') = hd (cr1 crs)" "hd (cr2 crs') = hd (cr2 crs)"
      "hd (cr3 crs') = hd (cr3 crs)" "hd (cr4 crs') = hd (cr4 crs)"
    and sel: "tl (cr_at crs' ?f) = filtered_row paeth (nat bpp) (tl (cr0 crs)) (tl pr) ?f"
    by blast
  have ord: "hd filter_order # tl filter_order = filter_order"
    by (simp add: filter_order_def)
  from keep_best_first_min [of "hd filter_order" "tl filter_order" ?cost]
  obtain j where j: "j < length filter_order" "?f = filter_order ! j"
    unfolding ord exhaustive_filter_def by blast
  have f5: "?f < 5"
    using j(1) by (auto simp: j(2) filter_order_def less_Suc_eq ftUp_def ftPaeth_def ftNone_def ftSub_def ftAverage_def)
  have ne: "cr_at crs' ?f \<noteq> []"
    using ok' by (auto simp: cr_at_def rows_ok_def)
  have tg: "tagged crs'"
    using assms(2) hd c0 by (simp add: tagged_def)
  have tag: "hd (cr_at crs' ?f) = of_nat ?f"
    using f5 tg by (auto simp: cr_at_def tagged_def less_Suc_eq numeral_eq_Suc)
  have buf: "cr_at crs' ?f = of_nat ?f # filtered_row paeth (nat bpp) (tl (cr0 crs)) (tl pr) ?f"
    using ne tag sel by (metis list.collapse)
  show ?thesis
    using run buf ok' tg c0 by blast
qed

section \<open>Claims about the filter selector\<close>

text \<open>
  C2: for every pair of equal-length current and previous rows and every \<open>bpp \<ge> 1\<close> that
  \<^verbatim>\<open>filter\<close> can receive (row buffers as \<^verbatim>\<open>writeImage\<close> sets them up: equal lengths,
  tag byte \<open>i\<close> in buffer \<open>i\<close>; \<open>bpp\<close> at most the number \<open>n\<close> of data bytes of the row, as
  at the one call of the function), \<^verbatim>\<open>filter\<close> returns the first filter, in the priority
  order Up, Paeth, None, Sub, Average, whose sum of \<^verbatim>\<open>abs8\<close> over the fully filtered row
  is minimal among the five (no other filter has a smaller sum, and every filter earlier in
  the order has a strictly larger one); this is the filter the exhaustive computation
  without early exit selects; and the returned row buffer holds the tag of that filter in
  byte 0, followed by the fully filtered row.
\<close>

theorem filter_png_first_minimum:
  assumes "rows_ok crs pr n" and "tagged crs" and "1 \<le> bpp" and "bpp \<le> int n"
  shows "\<exists>j crs'. j < length filter_order
      \<and> filter_png paeth crs pr bpp = Some (filter_order ! j, crs')
      \<and> (\<forall>k<length filter_order.
            row_sum (filtered_row paeth (nat bpp) (tl (cr0 crs)) (tl pr) (filter_order ! j))
              \<le> row_sum (filtered_row paeth (nat bpp) (tl (cr0 crs)) (tl pr) (filter_order ! k)))
      \<and> (\<forall>k<j.
            row_sum (filtered_row paeth (nat bpp) (tl (cr0 crs)) (tl pr) (filter_order ! j))
              < row_sum (filtered_row paeth (nat bpp) (tl (cr0 crs)) (tl pr) (filter_order ! k)))
      \<and> filter_order ! j = exhaustive_filter paeth (nat bpp) (tl (cr0 crs)) (tl pr)
      \<and> cr_at crs' (filter_order ! j)
          = of_nat (filter_order ! j)
              # filtered_row paeth (nat bpp) (tl (cr0 crs)) (tl pr) (filter_order ! j)"
proof -
  let ?cost = "\<lambda>f. row_sum (filtered_row paeth (nat bpp) (tl (cr0 crs)) (tl pr) f)"
  let ?f = "exhaustive_filter paeth (nat bpp) (tl (cr0 crs)) (tl pr)"
  have bpp0: "0 \<le> bpp" using assms(3) by simp
  from filter_png_char [OF assms(1) bpp0 assms(4), of paeth]
  obtain crs' where run: "filter_png paeth crs pr bpp = Some (?f, crs')"
    and ok': "rows_ok crs' pr n" and c0: "cr0 crs' = cr0 crs"
    and hd: "hd (cr1 crs') = hd (cr1 crs)" "hd (cr2 crs') = hd (cr2 crs)"
      "hd (cr3 crs') = hd (cr3 crs)" "hd (cr4 crs') = hd (cr4 crs)"
    and sel: "tl (cr_at crs' ?f) = filtered_row paeth (nat bpp) (tl (cr0 crs)) (tl pr) ?f"
    by blast
  have ord: "hd filter_order # tl filter_order = filter_order"
    by (simp add: filter_order_def)
  from keep_best_first_min [of "hd filter_order" "tl filter_order" ?cost]
  obtain j where j: "j < length filter_order" "?f = filter_order ! j"
      "\<forall>k<length filter_order. ?cost (filter_order ! j) \<le> ?cost (filter_order ! k)"
      "\<forall>k<j. ?cost (filter_order ! j) < ?cost (filter_order ! k)"
    unfolding ord exhaustive_filter_def by blast
  have f5: "?f < 5"
    using j(1) by (auto simp: j(2) filter_order_def less_Suc_eq ftUp_def ftPaeth_def ftNone_def ftSub_def ftAverage_def)
  have ne: "cr_at crs' ?f \<noteq> []"
    using ok' by (auto simp: cr_at_def rows_ok_def)
  have tag: "hd (cr_at crs' ?f) = of_nat ?f"
    using f5 assms(2) hd c0
    by (auto simp: cr_at_def tagged_def less_Suc_eq numeral_eq_Suc)
  have buf: "cr_at crs' ?f = of_nat ?f # filtered_row paeth (nat bpp) (tl (cr0 crs)) (tl pr) ?f"
    using ne tag sel by (metis list.collapse)
  show ?thesis
    using run j buf by (intro exI [of _ j] exI [of _ crs']) simp
qed

text \<open>The theorem at a row of two bytes, where the Average filter is selected.\<close>

theorem filter_png_first_minimum_witness:
  "rows_ok (example_rows [200, 150]) [0, 0, 100] 2 \<and> tagged (example_rows [200, 150])
   \<and> (\<exists>j crs'. j < length filter_order
      \<and> filter_png paeth_spec (example_rows [200, 150]) [0, 0, 100] 1 = Some (filter_order ! j, crs')
      \<and> filter_order ! j = exhaustive_filter paeth_spec 1 [200, 150] [0, 100]
      \<and> cr_at crs' (filter_order ! j)
          = of_nat (filter_order ! j) # filtered_row paeth_spec 1 [200, 150] [0, 100] (filter_order ! j))"
proof -
  have a: "rows_ok (example_rows [200, 150]) [0, 0, 100] 2"
    by (simp add: rows_ok_def example_rows_def)
  have b: "tagged (example_rows [200, 150])"
    by (simp add: tagged_def example_rows_def)
  have c: "(1::int) \<le> 1" "1 \<le> int 2" by simp_all
  from filter_png_first_minimum [OF a b c, of paeth_spec] a b
  show ?thesis by (simp add: example_rows_def) blast
qed

text \<open>
  C3, as the claim states it, fails: it takes the sum \<^verbatim>\<open>cur[i-bpp] + prev[i]\<close> modulo 256
  before halving. The code adds the two bytes as ints. For the row (200, 150) over the
  previous row (0, 100) with \<open>bpp = 1\<close> the Average filter is selected and its second byte
  is 150 - (200 + 100) div 2 = 0, where the claim gives 150 - ((200 + 100) mod 256) div 2
  = 128.
\<close>

theorem average_sum_wraps_counterexample:
  "filter_png paeth_spec (example_rows [200, 150]) [0, 0, 100] 1
     = Some (ftAverage,
             \<lparr>cr0 = [0, 200, 150], cr1 = [1, 200, 206], cr2 = [2, 200, 50],
              cr3 = [3, 200, 0], cr4 = [4, 200, 206]\<rparr>)
   \<and> average_row_mod256 1 [200, 150] [0, 100] = [200, 128]"
  by code_simp

text \<open>
  C3, amended: the Average filter output byte at \<open>i \<ge> bpp\<close> is
  \<^verbatim>\<open>cur[i] - floor((cur[i-bpp] + prev[i]) / 2)\<close>, where the sum is formed without
  wrap-around (as ints, up to 510) and only the halved sum and the difference are taken
  modulo 256; at \<open>i < bpp\<close> it is \<^verbatim>\<open>cur[i] - floor(prev[i] / 2)\<close>. This holds for every
  byte the Average loop writes: the first \<open>k\<close> bytes of the row, where \<open>bpp \<le> k \<le> n\<close> is
  where the early exit stops the loop, and \<open>k = n\<close>, the whole row, whenever the Average
  filter is the one returned.
\<close>

theorem average_filter_bytes:
  assumes "rows_ok crs pr n" and "0 \<le> bpp" and "bpp \<le> int n"
  shows "\<exists>f crs' k. filter_png paeth crs pr bpp = Some (f, crs')
      \<and> nat bpp \<le> k \<and> k \<le> n \<and> (f = ftAverage \<longrightarrow> k = n)
      \<and> (\<forall>i<k. tl (cr3 crs') ! i
            = (if i < nat bpp then tl (cr0 crs) ! i - tl pr ! i div 2
               else tl (cr0 crs) ! i
                      - word_of_int ((uint (tl (cr0 crs) ! (i - nat bpp)) + uint (tl pr ! i)) div 2)))"
proof -
  let ?f = "exhaustive_filter paeth (nat bpp) (tl (cr0 crs)) (tl pr)"
  from filter_png_char [OF assms, of paeth]
  obtain crs' k where run: "filter_png paeth crs pr bpp = Some (?f, crs')"
    and k: "nat bpp \<le> k" "k \<le> n" "?f = ftAverage \<longrightarrow> k = n"
    and avg: "\<forall>i<k. tl (cr3 crs') ! i = average_row (nat bpp) (tl (cr0 crs)) (tl pr) ! i"
    by blast
  have len: "length (tl (cr0 crs)) = n"
    using assms(1) by (simp add: rows_ok_def)
  have "\<forall>i<k. tl (cr3 crs') ! i
            = (if i < nat bpp then tl (cr0 crs) ! i - tl pr ! i div 2
               else tl (cr0 crs) ! i
                      - word_of_int ((uint (tl (cr0 crs) ! (i - nat bpp)) + uint (tl pr ! i)) div 2))"
  proof (intro allI impI)
    fix i assume i: "i < k"
    then have "i < n" using k(2) by simp
    then show "tl (cr3 crs') ! i
            = (if i < nat bpp then tl (cr0 crs) ! i - tl pr ! i div 2
               else tl (cr0 crs) ! i
                      - word_of_int ((uint (tl (cr0 crs) ! (i - nat bpp)) + uint (tl pr ! i)) div 2))"
      using avg i len by (simp add: average_row_def)
  qed
  with run k show ?thesis by blast
qed

text \<open>The theorem at the row of the counterexample.\<close>

theorem average_filter_bytes_witness:
  "rows_ok (example_rows [200, 150]) [0, 0, 100] 2 \<and> (0::int) \<le> 1 \<and> (1::int) \<le> int 2
   \<and> (\<exists>f crs' k. filter_png paeth_spec (example_rows [200, 150]) [0, 0, 100] 1 = Some (f, crs')
        \<and> nat 1 \<le> k \<and> k \<le> 2 \<and> (f = ftAverage \<longrightarrow> k = 2)
        \<and> (\<forall>i<k. tl (cr3 crs') ! i
              = (if i < nat 1
                 then tl (cr0 (example_rows [200, 150])) ! i - tl [0, 0, 100] ! i div 2
                 else tl (cr0 (example_rows [200, 150])) ! i
                        - word_of_int ((uint (tl (cr0 (example_rows [200, 150])) ! (i - nat 1))
                                        + uint (tl [0, 0, 100 :: u8] ! i)) div 2))))"
proof -
  have a: "rows_ok (example_rows [200, 150]) [0, 0, 100] 2"
    by (simp add: rows_ok_def example_rows_def)
  have c: "(0::int) \<le> 1" "(1::int) \<le> int 2" by simp_all
  note r = average_filter_bytes [OF a c, of paeth_spec]
  show ?thesis by (rule conjI [OF a conjI [OF c(1) conjI [OF c(2) r]]])
qed

section \<open>Claims about the orchestrator: mode selection and size validation\<close>

text \<open>
  C6, as the claim states it, fails in its second half: an image of the colour model
  \<^verbatim>\<open>color.GrayModel\<close> with a pixel that is not opaque still selects the grayscale-8
  mode, not truecolor+alpha-8. The switch on the colour model sets \<^verbatim>\<open>cbG8\<close> for
  \<^verbatim>\<open>color.GrayModel\<close> without calling \<^verbatim>\<open>opaque\<close>.
\<close>

theorem gray_model_transparent_counterexample:
  "palette (gray_image 1 1 0 [5]) = None
   \<and> color_model (gray_image 1 1 0 [5]) = GrayModel
   \<and> opaque (gray_image 1 1 0xffff [5]) \<and> select_cb (gray_image 1 1 0xffff [5]) = cbG8
   \<and> \<not> opaque (gray_image 1 1 0 [5]) \<and> select_cb (gray_image 1 1 0 [5]) = cbG8
   \<and> cbG8 \<noteq> cbTCA8"
  by code_simp

text \<open>
  C6, amended: a source image without palette whose colour model is 8-bit grayscale
  selects the grayscale-8 mode whether or not it is fully opaque (and a 16-bit grayscale
  model selects grayscale-16 likewise). The opacity check governs the mode only for the
  other colour models: RGBA, NRGBA and Alpha select truecolor-8 when opaque and
  truecolor+alpha-8 otherwise, every remaining model truecolor-16 or truecolor+alpha-16.
\<close>

theorem select_cb_by_colour_model:
  assumes "palette m = None"
  shows "(color_model m = GrayModel \<longrightarrow> select_cb m = cbG8)
       \<and> (color_model m = Gray16Model \<longrightarrow> select_cb m = cbG16)
       \<and> (color_model m = RGBAModel \<or> color_model m = NRGBAModel \<or> color_model m = AlphaModel
            \<longrightarrow> select_cb m = (if opaque m then cbTC8 else cbTCA8))
       \<and> (color_model m = OtherModel \<longrightarrow> select_cb m = (if opaque m then cbTC16 else cbTCA16))"
  using assms by (auto simp: select_cb_def)

text \<open>The theorem at a 1 by 1 gray image whose pixel is transparent.\<close>

theorem select_cb_by_colour_model_witness:
  "palette (gray_image 1 1 0 [5]) = None \<and> \<not> opaque (gray_image 1 1 0 [5])
   \<and> select_cb (gray_image 1 1 0 [5]) = cbG8"
proof -
  have a: "palette (gray_image 1 1 0 [5]) = None" by (simp add: gray_image_def)
  have b: "color_model (gray_image 1 1 0 [5]) = GrayModel" by (simp add: gray_image_def)
  have c: "\<not> opaque (gray_image 1 1 0 [5])" by code_simp
  from select_cb_by_colour_model [OF a] b have "select_cb (gray_image 1 1 0 [5]) = cbG8" by blast
  with a c show ?thesis by blast
qed

text \<open>
  C7, as the claim states it, fails: the option loop runs before the size validation, so
  an encode call with an option that is not a metadata bundle returns the option error,
  not a \<^verbatim>\<open>FormatError\<close>, also for an image of width 0.
\<close>

theorem option_error_before_size_check_counterexample:
  "Dx (bounds (gray_image 0 0 0xffff [])) = 0
   \<and> EncodeExtended X0 enc0 sink0 (Fresh (gray_image 0 0 0xffff [])) [OptOther]
       = Some (Some UnknownWriteOption, sink0)"
  by (simp add: EncodeExtended_def Dx_def gray_image_def rect_def)

text \<open>
  C7, amended: for every source image that is not deferred and every list of options that
  passes the option loop (at most one metadata bundle, which validates, and no option of
  another type), an encode call with width or height \<open>\<le> 0\<close>, or width or height
  \<open>\<ge> 2^32\<close>, returns the \<^verbatim>\<open>FormatError\<close> of the invalid size and leaves the sink as it
  was: no byte has been written. Width = height = 1 passes the size validation, and a
  deferred source skips it.
\<close>

theorem invalid_size_is_format_error:
  assumes "read_opts opts None = Inr md"
  shows "(Dx (bounds im) \<le> 0 \<or> Dy (bounds im) \<le> 0 \<or> 2 ^ 32 \<le> Dx (bounds im) \<or> 2 ^ 32 \<le> Dy (bounds im)
            \<longrightarrow> EncodeExtended X enc w (Fresh im) opts
                 = Some (Some (FormatError (InvalidImageSize (Dx (bounds im)) (Dy (bounds im)))), w))
       \<and> (Dx (bounds im) = 1 \<and> Dy (bounds im) = 1 \<longrightarrow> size_check (Fresh im) = None)
       \<and> size_check (Deferred di) = None"
  using assms by (auto simp: EncodeExtended_def size_check_def Let_def)

text \<open>The theorem at images of width 0 and of width \<open>2^32\<close>, without options.\<close>

theorem invalid_size_is_format_error_witness:
  "read_opts [] None = Inr None
   \<and> Dx (bounds (gray_image 0 1 0xffff [])) = 0
   \<and> EncodeExtended X0 enc0 sink0 (Fresh (gray_image 0 1 0xffff [])) []
       = Some (Some (FormatError (InvalidImageSize 0 1)), sink0)
   \<and> Dx (bounds (gray_image (2 ^ 32) 1 0xffff [])) = 2 ^ 32
   \<and> EncodeExtended X0 enc0 sink0 (Fresh (gray_image (2 ^ 32) 1 0xffff [])) []
       = Some (Some (FormatError (InvalidImageSize (2 ^ 32) 1)), sink0)
   \<and> size_check (Fresh (gray_image 1 1 0xffff [5])) = None"
proof -
  have a: "read_opts [] None = Inr None" by simp
  have d0: "Dx (bounds (gray_image 0 1 0xffff [])) = 0" "Dy (bounds (gray_image 0 1 0xffff [])) = 1"
    by (simp_all add: Dx_def Dy_def gray_image_def rect_def)
  have d1: "Dx (bounds (gray_image (2 ^ 32) 1 0xffff [])) = 2 ^ 32"
      "Dy (bounds (gray_image (2 ^ 32) 1 0xffff [])) = 1"
    by (simp_all add: Dx_def Dy_def gray_image_def rect_def)
  have d2: "Dx (bounds (gray_image 1 1 0xffff [5])) = 1" "Dy (bounds (gray_image 1 1 0xffff [5])) = 1"
    by (simp_all add: Dx_def Dy_def gray_image_def rect_def)
  from invalid_size_is_format_error [OF a, of "gray_image 0 1 0xffff []" X0 enc0 sink0] d0
  have r0: "EncodeExtended X0 enc0 sink0 (Fresh (gray_image 0 1 0xffff [])) []
       = Some (Some (FormatError (InvalidImageSize 0 1)), sink0)" by simp
  from invalid_size_is_format_error [OF a, of "gray_image (2 ^ 32) 1 0xffff []" X0 enc0 sink0] d1
  have r1: "EncodeExtended X0 enc0 sink0 (Fresh (gray_image (2 ^ 32) 1 0xffff [])) []
       = Some (Some (FormatError (InvalidImageSize (2 ^ 32) 1)), sink0)" by simp
  from invalid_size_is_format_error [OF a, of "gray_image 1 1 0xffff [5]"] d2
  have r2: "size_check (Fresh (gray_image 1 1 0xffff [5])) = None" by simp
  show ?thesis using a d0(1) d1(1) r0 r1 r2 by simp
qed

section \<open>The chunk writer on a sink that accepts, and the palette loop\<close>

lemma sink_write_accepting:
  "accepting s \<Longrightarrow> sink_write s p = (s\<lparr>written := written s @ [p]\<rparr>, None)"
  by (simp add: sink_write_def accepting_def)

lemma accepting_written [simp]: "accepting (s\<lparr>written := ws\<rparr>) = accepting s"
  by (simp add: accepting_def)

lemma writeChunk_accepting:
  assumes "e_err e = None" and "accepting (e_w e)" and "int (length b) < 2 ^ 32"
  shows "e_err (writeChunk X e b name) = None"
    and "accepting (e_w (writeChunk X e b name))"
    and "sink_bytes (e_w (writeChunk X e b name)) = sink_bytes (e_w e) @ frame X name b"
    and "e_tmp (writeChunk X e b name) = e_tmp e"
    and "e_level (writeChunk X e b name) = e_level e"
  using assms
  by (simp_all add: writeChunk_def Let_def sink_write_accepting sink_bytes_def frame_def)

lemma slice_append: "lo \<le> mid \<Longrightarrow> mid \<le> hi \<Longrightarrow> slice_of t lo hi = slice_of t lo mid @ slice_of t mid hi"
proof -
  assume a: "lo \<le> mid" "mid \<le> hi"
  then have "[lo..<hi] = [lo..<mid] @ [mid..<hi]"
    by (metis le_Suc_ex upt_add_eq_append)
  then show ?thesis by (simp add: slice_of_def)
qed

lemma slice_cong: "(\<And>k. lo \<le> k \<Longrightarrow> k < hi \<Longrightarrow> t k = t' k) \<Longrightarrow> slice_of t lo hi = slice_of t' lo hi"
  by (simp add: slice_of_def)

lemma slice_take: "k \<le> n \<Longrightarrow> slice_of t lo (lo + k) = take k (slice_of t lo (lo + n))"
  by (simp add: slice_of_def take_map take_upt)

lemma plte_loop_char:
  assumes "i + length cs \<le> 256"
  shows "slice_of (fst (plte_loop t lst cs i)) 0 (3 * (i + length cs))
           = slice_of t 0 (3 * i) @ plte_payload cs
       \<and> slice_of (fst (plte_loop t lst cs i)) (3 * 256) (3 * 256 + (i + length cs))
           = slice_of t (3 * 256) (3 * 256 + i) @ map c_A cs
       \<and> snd (plte_loop t lst cs i)
           = (if list_all fully_opaque cs then lst else int (i + last_nonopaque cs))"
  using assms
proof (induction cs arbitrary: t lst i)
  case Nil
  show ?case by (simp add: plte_payload_def)
next
  case (Cons c cs)
  define t1 where "t1 = t(3 * i := c_R c, 3 * i + 1 := c_G c, 3 * i + 2 := c_B c, 3 * 256 + i := c_A c)"
  define l1 where "l1 = (if \<not> fully_opaque c then int i else lst)"
  have i: "i \<le> 255" "Suc i + length cs \<le> 256" using Cons.prems by simp_all
  note IH = Cons.IH [OF i(2), of t1 l1]
  have step: "plte_loop t lst (c # cs) i = plte_loop t1 l1 cs (Suc i)"
    by (simp add: t1_def l1_def fully_opaque_def)
  have a: "slice_of t1 0 (3 * Suc i) = slice_of t 0 (3 * i) @ [c_R c, c_G c, c_B c]"
  proof -
    have "slice_of t1 0 (3 * Suc i) = slice_of t1 0 (3 * i) @ slice_of t1 (3 * i) (3 * Suc i)"
      by (rule slice_append) simp_all
    moreover have "slice_of t1 0 (3 * i) = slice_of t 0 (3 * i)"
      using i(1) by (intro slice_cong) (simp add: t1_def)
    moreover have "[3 * i..<3 * Suc i] = [3 * i, 3 * i + 1, 3 * i + 2]"
      by (simp add: upt_conv_Cons)
    then have "slice_of t1 (3 * i) (3 * Suc i) = [c_R c, c_G c, c_B c]"
      using i(1) by (simp add: slice_of_def t1_def)
    ultimately show ?thesis by simp
  qed
  have b: "slice_of t1 (3 * 256) (3 * 256 + Suc i) = slice_of t (3 * 256) (3 * 256 + i) @ [c_A c]"
  proof -
    have "slice_of t1 (3 * 256) (3 * 256 + Suc i)
        = slice_of t1 (3 * 256) (3 * 256 + i) @ slice_of t1 (3 * 256 + i) (3 * 256 + Suc i)"
      by (rule slice_append) simp_all
    moreover have "slice_of t1 (3 * 256) (3 * 256 + i) = slice_of t (3 * 256) (3 * 256 + i)"
      using i(1) by (intro slice_cong) (simp add: t1_def)
    moreover have "[3 * 256 + i..<3 * 256 + Suc i] = [3 * 256 + i]"
      by (simp add: upt_conv_Cons)
    then have "slice_of t1 (3 * 256 + i) (3 * 256 + Suc i) = [c_A c]"
      by (simp add: slice_of_def t1_def)
    ultimately show ?thesis by simp
  qed
  have len: "3 * (i + length (c # cs)) = 3 * (Suc i + length cs)"
      "3 * 256 + (i + length (c # cs)) = 3 * 256 + (Suc i + length cs)"
    by simp_all
  have pay: "plte_payload (c # cs) = [c_R c, c_G c, c_B c] @ plte_payload cs"
    by (simp add: plte_payload_def)
  have one: "slice_of (fst (plte_loop t lst (c # cs) i)) 0 (3 * (i + length (c # cs)))
           = slice_of t 0 (3 * i) @ plte_payload (c # cs)"
    unfolding step len pay using IH a by simp
  have two: "slice_of (fst (plte_loop t lst (c # cs) i)) (3 * 256) (3 * 256 + (i + length (c # cs)))
           = slice_of t (3 * 256) (3 * 256 + i) @ map c_A (c # cs)"
    unfolding step len using IH b by simp
  have three: "snd (plte_loop t lst (c # cs) i)
           = (if list_all fully_opaque (c # cs) then lst else int (i + last_nonopaque (c # cs)))"
    unfolding step using IH by (simp add: l1_def)
  show ?case using one two three by blast
qed

lemma last_nonopaque_char:
  "\<not> list_all fully_opaque p \<Longrightarrow>
     last_nonopaque p < length p \<and> \<not> fully_opaque (p ! last_nonopaque p)
     \<and> (\<forall>j. last_nonopaque p < j \<and> j < length p \<longrightarrow> fully_opaque (p ! j))"
proof (induction p)
  case Nil
  then show ?case by simp
next
  case (Cons c cs)
  show ?case
  proof (cases "list_all fully_opaque cs")
    case True
    then have "\<forall>j. 0 < j \<and> j < length (c # cs) \<longrightarrow> fully_opaque ((c # cs) ! j)"
      by (auto simp: list_all_length nth_Cons')
    with True Cons.prems show ?thesis by simp
  next
    case False
    from Cons.IH [OF False] show ?thesis
      using False by (auto simp: nth_Cons' less_Suc_eq_0_disj)
  qed
qed

lemma writePLTEAndTRNS_bad_length:
  "length p = 0 \<or> 256 < length p \<Longrightarrow>
     writePLTEAndTRNS X e p = e\<lparr>e_err := Some (FormatError (BadPaletteLength (length p)))\<rparr>"
  by (auto simp: writePLTEAndTRNS_def)


section \<open>Errors of a chunk write, the rune loop and the scratch buffer\<close>

lemma sink_write_error:
  "snd (sink_write s p) = None \<or> (\<exists>x. snd (sink_write s p) = Some (External x))"
  by (auto simp: sink_write_def split: option.splits)

lemma writeChunk_error:
  assumes "e_err e = None" and "int (length b) < 2 ^ 32"
  shows "e_err (writeChunk X e b name) = None
       \<or> (\<exists>x. e_err (writeChunk X e b name) = Some (External x))"
proof -
  let ?h = "be32 (of_nat (length b)) @ chunk_name name"
  let ?f = "be32 (crc32_ieee X (chunk_name name @ b))"
  obtain w1 r1 where s1: "sink_write (e_w e) ?h = (w1, r1)" by (cases "sink_write (e_w e) ?h")
  obtain w2 r2 where s2: "sink_write w1 b = (w2, r2)" by (cases "sink_write w1 b")
  obtain w3 r3 where s3: "sink_write w2 ?f = (w3, r3)" by (cases "sink_write w2 ?f")
  have r: "r1 = None \<or> (\<exists>x. r1 = Some (External x))" "r2 = None \<or> (\<exists>x. r2 = Some (External x))"
      "r3 = None \<or> (\<exists>x. r3 = Some (External x))"
    using sink_write_error [of "e_w e" ?h] sink_write_error [of w1 b] sink_write_error [of w2 ?f]
    by (simp_all add: s1 s2 s3)
  show ?thesis
    using assms r by (auto simp: writeChunk_def Let_def s1 s2 s3 split: option.splits)
qed

lemma rune_width: "1 \<le> fst (rune_at (x # xs)) \<and> fst (rune_at (x # xs)) \<le> Suc (length xs)"
  by (auto split: list.splits)

lemma length_range_bytes: "length (range_bytes xs) = length xs"
proof (induction xs rule: range_bytes.induct)
  case 1
  show ?case by simp
next
  case (2 x xs)
  from rune_width [of x xs] "2.IH" show ?case
    by (simp del: rune_at.simps)
qed

lemma slice_nth: "i < n \<Longrightarrow> slice_of f 0 n ! i = f i"
  by (simp add: slice_of_def)

lemma ztxt_payload:
  assumes "k = length key" and "k + 2 + length val \<le> 1024"
  shows "slice_of (if val \<noteq> [] then put ((put t 0 key)(k := 0, k + 1 := m)) (k + 2) (take (1024 - (k + 2)) val)
                   else (put t 0 key)(k := 0, k + 1 := m)) 0 (k + 2 + length val)
           = key @ [0, m] @ val"
proof -
  define f where "f = (if val \<noteq> [] then put ((put t 0 key)(k := 0, k + 1 := m)) (k + 2) (take (1024 - (k + 2)) val)
                   else (put t 0 key)(k := 0, k + 1 := m))"
  define n where "n = k + 2 + length val"
  have tk: "take (1024 - (k + 2)) val = val" using assms(2) by simp
  have f': "f = (if val \<noteq> [] then put ((put t 0 key)(k := 0, k + 1 := m)) (k + 2) val
                 else (put t 0 key)(k := 0, k + 1 := m))"
    by (simp only: f_def tk)
  have f: "f i = (key @ [0, m] @ val) ! i" if i: "i < n" for i
  proof -
    consider "i < k" | "i = k" | "i = k + 1" | "k + 2 \<le> i" by linarith
    then show ?thesis
    proof cases
      case 1
      then show ?thesis using assms(1) by (simp add: f' put_def nth_append)
    next
      case 2
      then show ?thesis using assms(1) by (simp add: f' put_def nth_append)
    next
      case 3
      then show ?thesis using assms(1) by (simp add: f' put_def nth_append)
    next
      case 4
      then have v: "val \<noteq> []" using i by (auto simp: n_def)
      have "(key @ [0, m] @ val) ! i = val ! (i - (k + 2))"
        using 4 assms(1) by (simp add: nth_append nth_Cons')
      moreover have "f i = val ! (i - (k + 2))"
        using 4 i v assms(1) by (simp add: f' put_def n_def)
      ultimately show ?thesis by simp
    qed
  qed
  have "slice_of f 0 n = key @ [0, m] @ val"
  proof (rule nth_equalityI)
    show "length (slice_of f 0 n) = length (key @ [0, m] @ val)"
      using assms(1) by (simp add: slice_of_def n_def)
  next
    fix i assume "i < length (slice_of f 0 n)"
    then have "i < n" by (simp add: slice_of_def)
    then show "slice_of f 0 n ! i = (key @ [0, m] @ val) ! i"
      by (simp add: slice_nth f)
  qed
  then show ?thesis by (simp only: f_def n_def)
qed


section \<open>Claims about the chunk writers\<close>

text \<open>
  C9: in a session without error whose sink accepts the writes, for every palette of valid
  length (1 to 256) \<^verbatim>\<open>writePLTEAndTRNS\<close> emits the PLTE chunk and then a tRNS chunk if
  and only if some palette entry is not fully opaque; the payload of the tRNS chunk is
  exactly the alpha bytes of the entries 0 up to the last one that is not fully opaque
  (\<open>last_nonopaque p\<close>: it is an index of the palette, the entry there is not fully opaque,
  and every entry after it is). A palette of length 0 or greater than 256 yields the
  \<^verbatim>\<open>FormatError\<close> of the bad palette length, with nothing written.
\<close>

theorem palette_and_transparency_chunks:
  assumes "e_err e = None" and "accepting (e_w e)"
  shows "(1 \<le> length p \<and> length p \<le> 256 \<longrightarrow>
            e_err (writePLTEAndTRNS X e p) = None
          \<and> sink_bytes (e_w (writePLTEAndTRNS X e p))
              = sink_bytes (e_w e) @ frame X ''PLTE'' (plte_payload p)
                  @ (if list_all fully_opaque p then []
                     else frame X ''tRNS'' (map c_A (take (Suc (last_nonopaque p)) p)))
          \<and> (list_all fully_opaque p
              \<or> last_nonopaque p < length p \<and> c_A (p ! last_nonopaque p) \<noteq> 0xff
                \<and> (\<forall>j. last_nonopaque p < j \<and> j < length p \<longrightarrow> c_A (p ! j) = 0xff)))
       \<and> (length p = 0 \<or> 256 < length p \<longrightarrow>
            e_err (writePLTEAndTRNS X e p) = Some (FormatError (BadPaletteLength (length p)))
          \<and> e_w (writePLTEAndTRNS X e p) = e_w e)"
proof (rule conjI; rule impI)
  assume len: "1 \<le> length p \<and> length p \<le> 256"
  define t lst where "t = fst (plte_loop (e_tmp e) (- 1) p 0)"
    and "lst = snd (plte_loop (e_tmp e) (- 1) p 0)"
  have pl: "plte_loop (e_tmp e) (- 1) p 0 = (t, lst)" by (simp add: t_def lst_def)
  from plte_loop_char [of 0 p "e_tmp e" "- 1"] len
  have rgb: "slice_of t 0 (3 * length p) = plte_payload p"
    and alpha: "slice_of t (3 * 256) (3 * 256 + length p) = map c_A p"
    and l: "lst = (if list_all fully_opaque p then - 1 else int (last_nonopaque p))"
    by (simp_all add: t_def lst_def slice_of_def)
  define e1 where "e1 = writeChunk X (e\<lparr>e_tmp := t\<rparr>) (plte_payload p) ''PLTE''"
  have lp: "length (plte_payload p) = 3 * length p"
    using rgb by (metis diff_zero length_map length_upt slice_of_def)
  have e1: "e_err e1 = None" "accepting (e_w e1)"
      "sink_bytes (e_w e1) = sink_bytes (e_w e) @ frame X ''PLTE'' (plte_payload p)"
    using assms len lp writeChunk_accepting [of "e\<lparr>e_tmp := t\<rparr>" "plte_payload p" X "''PLTE''"]
    by (simp_all add: e1_def)
  have run: "writePLTEAndTRNS X e p
      = (if lst \<noteq> - 1 then writeChunk X e1 (slice_of t (3 * 256) (3 * 256 + 1 + nat lst)) ''tRNS''
         else e1)"
  proof -
    have "\<not> (length p < 1 \<or> 256 < length p)" using len by auto
    then show ?thesis
      by (simp only: writePLTEAndTRNS_def pl rgb e1_def Let_def if_False prod.case)
  qed
  show "e_err (writePLTEAndTRNS X e p) = None
      \<and> sink_bytes (e_w (writePLTEAndTRNS X e p))
          = sink_bytes (e_w e) @ frame X ''PLTE'' (plte_payload p)
              @ (if list_all fully_opaque p then []
                 else frame X ''tRNS'' (map c_A (take (Suc (last_nonopaque p)) p)))
      \<and> (list_all fully_opaque p
          \<or> last_nonopaque p < length p \<and> c_A (p ! last_nonopaque p) \<noteq> 0xff
            \<and> (\<forall>j. last_nonopaque p < j \<and> j < length p \<longrightarrow> c_A (p ! j) = 0xff))"
  proof (cases "list_all fully_opaque p")
    case True
    then show ?thesis using run l e1 by simp
  next
    case False
    note ch = last_nonopaque_char [OF False]
    have ln: "Suc (last_nonopaque p) \<le> length p" using ch by simp
    have "slice_of t (3 * 256) (3 * 256 + 1 + nat lst)
        = slice_of t (3 * 256) (3 * 256 + Suc (last_nonopaque p))"
      using False l by simp
    also have "\<dots> = take (Suc (last_nonopaque p)) (slice_of t (3 * 256) (3 * 256 + length p))"
      by (rule slice_take [OF ln])
    also have "\<dots> = map c_A (take (Suc (last_nonopaque p)) p)"
      using alpha by (simp add: take_map)
    finally have pay: "slice_of t (3 * 256) (3 * 256 + 1 + nat lst)
        = map c_A (take (Suc (last_nonopaque p)) p)" .
    have short: "int (length (map c_A (take (Suc (last_nonopaque p)) p))) < 2 ^ 32"
      using len ln by simp
    have "lst \<noteq> - 1" using False l by simp
    then have r: "writePLTEAndTRNS X e p
        = writeChunk X e1 (map c_A (take (Suc (last_nonopaque p)) p)) ''tRNS''"
      using run pay by simp
    show ?thesis
      using False ch e1 writeChunk_accepting [OF e1(1,2) short, of X "''tRNS''"]
      by (simp add: r fully_opaque_def)
  qed
next
  assume "length p = 0 \<or> 256 < length p"
  then show "e_err (writePLTEAndTRNS X e p) = Some (FormatError (BadPaletteLength (length p)))
      \<and> e_w (writePLTEAndTRNS X e p) = e_w e"
    by (simp add: writePLTEAndTRNS_bad_length)
qed

text \<open>
  The theorem at a palette of five entries of which only index 2 is not opaque (a tRNS
  payload of 3 bytes), at a fully opaque palette (no tRNS chunk) and at the empty palette.
\<close>

theorem palette_and_transparency_chunks_witness:
  "e_err (session enc0 sink0) = None \<and> accepting (e_w (session enc0 sink0))
   \<and> sink_bytes (e_w (writePLTEAndTRNS X0 (session enc0 sink0) palette5))
       = frame X0 ''PLTE'' (plte_payload palette5) @ frame X0 ''tRNS'' [0xff, 0xff, 0x80]
   \<and> sink_bytes (e_w (writePLTEAndTRNS X0 (session enc0 sink0) [opaque_colour, opaque_colour]))
       = frame X0 ''PLTE'' (plte_payload [opaque_colour, opaque_colour])
   \<and> e_err (writePLTEAndTRNS X0 (session enc0 sink0) [])
       = Some (FormatError (BadPaletteLength 0))"
proof -
  have a: "e_err (session enc0 sink0) = None"
    by (simp add: session_def enc0_def zero_encoder_def)
  have b: "accepting (e_w (session enc0 sink0))"
    by (simp add: session_def enc0_def accepting_def sink0_def)
  have s: "sink_bytes (e_w (session enc0 sink0)) = []"
    by (simp add: session_def enc0_def sink_bytes_def sink0_def)
  have p5: "length palette5 = 5" "\<not> list_all fully_opaque palette5" "last_nonopaque palette5 = 2"
      "map c_A (take 3 palette5) = [0xff, 0xff, 0x80]"
    by (simp_all add: palette5_def fully_opaque_def opaque_colour_def clear_colour_def)
  have p2: "list_all fully_opaque [opaque_colour, opaque_colour]"
    by (simp add: fully_opaque_def opaque_colour_def)
  from palette_and_transparency_chunks [OF a b, of palette5 X0] p5 s
  have r5: "sink_bytes (e_w (writePLTEAndTRNS X0 (session enc0 sink0) palette5))
       = frame X0 ''PLTE'' (plte_payload palette5) @ frame X0 ''tRNS'' [0xff, 0xff, 0x80]"
    by (simp add: eval_nat_numeral)
  from palette_and_transparency_chunks [OF a b, of "[opaque_colour, opaque_colour]" X0] p2 s
  have r2: "sink_bytes (e_w (writePLTEAndTRNS X0 (session enc0 sink0) [opaque_colour, opaque_colour]))
       = frame X0 ''PLTE'' (plte_payload [opaque_colour, opaque_colour])"
    by simp
  from palette_and_transparency_chunks [OF a b, of "[]" X0]
  have r0: "e_err (writePLTEAndTRNS X0 (session enc0 sink0) [])
       = Some (FormatError (BadPaletteLength 0))"
    by simp
  show ?thesis using a b r5 r2 r0 by simp
qed

text \<open>
  C10: in a session without error, with \<open>val\<close> the compressed value that
  \<^verbatim>\<open>pngCompress\<close> returns, \<^verbatim>\<open>maybeWriteZTXT\<close> panics (a slice or index of the scratch
  array \<^verbatim>\<open>e.tmp\<close> is out of range) if and only if the assembled payload, the key, a
  NUL, the method byte and the compressed value, is longer than 1024 bytes; otherwise it
  hands exactly that payload to \<^verbatim>\<open>writeChunk\<close>. The payload is then at most 1024 bytes
  long, so the session never ends with the \<^verbatim>\<open>UnsupportedError\<close> of an oversized chunk.
  \<^verbatim>\<open>maybeWriteTEXT\<close> and \<^verbatim>\<open>maybeWriteITXT\<close> hand \<^verbatim>\<open>writeChunk\<close> a buffer of the size
  of their payload, whatever that size is.
\<close>

theorem ztxt_scratch_buffer_bound:
  assumes "e_err e = None" and "pngCompress X e (Value t) = Inr (val, method)"
  shows "(maybeWriteZTXT X e t = None \<longleftrightarrow> 1024 < length (Key t) + 2 + length val)
       \<and> (length (Key t) + 2 + length val \<le> 1024 \<longrightarrow>
            (\<exists>tmp'. maybeWriteZTXT X e t
               = Some (writeChunk X (e\<lparr>e_tmp := tmp'\<rparr>)
                         (Key t @ [0, word_of_int method] @ val) ''zTXt'')))
       \<and> (\<forall>e' n k. maybeWriteZTXT X e t = Some e' \<longrightarrow> e_err e' \<noteq> Some (UnsupportedError n k))
       \<and> maybeWriteTEXT X e t = writeChunk X e (Key t @ [0] @ range_bytes (Value t)) ''tEXt''
       \<and> length (Key t @ [0] @ range_bytes (Value t)) = length (Key t) + length (Value t) + 1
       \<and> maybeWriteITXT X e t
           = writeChunk X e
               (Key t @ [0] @ [1] @ [word_of_int method] @ LanguageTag t @ [0]
                  @ TranslatedKey t @ [0] @ val) ''iTXt''"
proof -
  let ?k = "length (Key t)"
  have panic: "maybeWriteZTXT X e t = None" if "1024 < ?k + 2 + length val"
    using that assms by (auto simp: maybeWriteZTXT_def Let_def)
  have run: "\<exists>tmp'. maybeWriteZTXT X e t
               = Some (writeChunk X (e\<lparr>e_tmp := tmp'\<rparr>)
                         (Key t @ [0, word_of_int method] @ val) ''zTXt'')"
    if le: "?k + 2 + length val \<le> 1024"
  proof -
    let ?t4 = "if val \<noteq> [] then put ((put (e_tmp e) 0 (Key t))(?k := 0, ?k + 1 := word_of_int method)) (?k + 2) (take (1024 - (?k + 2)) val)
                   else (put (e_tmp e) 0 (Key t))(?k := 0, ?k + 1 := word_of_int method)"
    have "maybeWriteZTXT X e t
        = Some (writeChunk X (e\<lparr>e_tmp := ?t4\<rparr>) (slice_of ?t4 0 (?k + 2 + length val)) ''zTXt'')"
      using le assms by (simp add: maybeWriteZTXT_def Let_def)
    also have "slice_of ?t4 0 (?k + 2 + length val) = Key t @ [0, word_of_int method] @ val"
      by (rule ztxt_payload [OF refl le])
    finally show ?thesis by blast
  qed
  have unsup: "e_err e' \<noteq> Some (UnsupportedError n k)" if "maybeWriteZTXT X e t = Some e'" for e' n k
  proof -
    have le: "?k + 2 + length val \<le> 1024"
      using that panic by (cases "1024 < ?k + 2 + length val") auto
    from run [OF le] that obtain tmp' where
      e': "e' = writeChunk X (e\<lparr>e_tmp := tmp'\<rparr>) (Key t @ [0, word_of_int method] @ val) ''zTXt''"
      by auto
    have "int (length (Key t @ [0, word_of_int method] @ val)) < 2 ^ 32"
      using le by simp
    from writeChunk_error [OF _ this, of "e\<lparr>e_tmp := tmp'\<rparr>" X "''zTXt''"] assms(1)
    show ?thesis by (auto simp: e')
  qed
  have text_eq: "maybeWriteTEXT X e t = writeChunk X e (Key t @ [0] @ range_bytes (Value t)) ''tEXt''"
    using assms(1) by (simp add: maybeWriteTEXT_def)
  have itxt: "maybeWriteITXT X e t
           = writeChunk X e
               (Key t @ [0] @ [1] @ [word_of_int method] @ LanguageTag t @ [0]
                  @ TranslatedKey t @ [0] @ val) ''iTXt''"
    using assms by (simp add: maybeWriteITXT_def)
  have iff: "maybeWriteZTXT X e t = None \<longleftrightarrow> 1024 < ?k + 2 + length val"
    using panic run by (cases "1024 < ?k + 2 + length val") auto
  show ?thesis
    using iff run unsup text_eq itxt by (simp add: length_range_bytes)
qed

text \<open>
  The theorem at a key of 1020 bytes with a compressed value of 3 bytes (1025 bytes, a
  panic) and at a key of 1019 bytes (1024 bytes, no panic).
\<close>

theorem ztxt_scratch_buffer_bound_witness:
  "e_err (session enc0 sink0) = None
   \<and> pngCompress X0 (session enc0 sink0) (Value (ztxt_entry 1020 [7, 8])) = Inr ([0x78, 7, 8], 0)
   \<and> maybeWriteZTXT X0 (session enc0 sink0) (ztxt_entry 1020 [7, 8]) = None
   \<and> maybeWriteZTXT X0 (session enc0 sink0) (ztxt_entry 1019 [7, 8]) \<noteq> None"
proof -
  have a: "e_err (session enc0 sink0) = None"
    by (simp add: session_def enc0_def zero_encoder_def)
  have b: "pngCompress X0 (session enc0 sink0) (Value (ztxt_entry 1020 [7, 8])) = Inr ([0x78, 7, 8], 0)"
      "pngCompress X0 (session enc0 sink0) (Value (ztxt_entry 1019 [7, 8])) = Inr ([0x78, 7, 8], 0)"
    by (simp_all add: pngCompress_def X0_def ztxt_entry_def)
  have k: "length (Key (ztxt_entry 1020 [7, 8])) = 1020" "length (Key (ztxt_entry 1019 [7, 8])) = 1019"
    by (simp_all add: ztxt_entry_def)
  from ztxt_scratch_buffer_bound [OF a b(1)] k(1)
  have r1: "maybeWriteZTXT X0 (session enc0 sink0) (ztxt_entry 1020 [7, 8]) = None" by simp
  from ztxt_scratch_buffer_bound [OF a b(2)] k(2)
  have r2: "maybeWriteZTXT X0 (session enc0 sink0) (ztxt_entry 1019 [7, 8]) \<noteq> None" by simp
  show ?thesis using a b(1) r1 r2 by simp
qed

text \<open>
  C5, as the claim states it, fails: with a raw ICC blob and an ICC object both present,
  the chunk written holds the encoded and compressed object, not the raw blob. Here the
  raw blob is (1, 2, 3) and the object encodes to (9): the payload written is the name,
  two zero bytes and the compressed (120, 9).
\<close>

theorem raw_icc_blob_not_written_counterexample:
  "rawIcc (icc_metadata [1, 2, 3] (Some (Inr [9]))) = [1, 2, 3]
   \<and> written (e_w (maybeWriteICCP X0 (session enc0 sink0) (Some (icc_metadata [1, 2, 3] (Some (Inr [9]))))))
       = [[0, 0, 0, 7, 105, 67, 67, 80], [105, 99, 99, 0, 0, 120, 9], [0, 0, 0, 11]]"
  by code_simp

text \<open>
  C5, amended: whenever an ICC profile object is present in the metadata (and the session
  holds no error, the hook and the compressor succeed and the sink accepts the writes),
  the iCCP chunk written holds the profile name, a NUL, the compression method byte 0 and
  the compressed encoding of the object, whether or not a raw blob is present as well: an
  ICC object takes precedence over a raw blob.
\<close>

theorem iccp_chunk_from_icc_object:
  assumes "e_err e = None" and "accepting (e_w e)"
      and "icc md = Some (Inr profile)"
      and "zlib_stream X (levelToZlib (e_level e)) profile = Inr z"
      and "int (length (iccName md @ [0, 0] @ z)) < 2 ^ 32"
  shows "e_err (maybeWriteICCP X e (Some md)) = None
       \<and> sink_bytes (e_w (maybeWriteICCP X e (Some md)))
           = sink_bytes (e_w e) @ frame X ''iCCP'' (iccName md @ [0, 0] @ z)"
proof -
  have "maybeWriteICCP X e (Some md) = writeChunk X e (iccName md @ [0, 0] @ z) ''iCCP''"
    using assms(1,3,4) by (simp add: maybeWriteICCP_def pngCompress_def)
  with writeChunk_accepting [OF assms(1,2,5), of X "''iCCP''"] show ?thesis by simp
qed

text \<open>The theorem at the metadata of the counterexample.\<close>

theorem iccp_chunk_from_icc_object_witness:
  "e_err (session enc0 sink0) = None \<and> accepting (e_w (session enc0 sink0))
   \<and> icc (icc_metadata [1, 2, 3] (Some (Inr [9]))) = Some (Inr [9])
   \<and> zlib_stream X0 (levelToZlib (e_level (session enc0 sink0))) [9] = Inr [0x78, 9]
   \<and> sink_bytes (e_w (maybeWriteICCP X0 (session enc0 sink0) (Some (icc_metadata [1, 2, 3] (Some (Inr [9]))))))
       = frame X0 ''iCCP'' [105, 99, 99, 0, 0, 0x78, 9]"
proof -
  have a: "e_err (session enc0 sink0) = None"
    by (simp add: session_def enc0_def zero_encoder_def)
  have b: "accepting (e_w (session enc0 sink0))"
    by (simp add: session_def enc0_def accepting_def sink0_def)
  have c: "icc (icc_metadata [1, 2, 3] (Some (Inr [9]))) = Some (Inr [9])"
    by (simp add: icc_metadata_def)
  have d: "zlib_stream X0 (levelToZlib (e_level (session enc0 sink0))) [9] = Inr [0x78, 9]"
    by (simp add: X0_def)
  have n: "iccName (icc_metadata [1, 2, 3] (Some (Inr [9]))) = [105, 99, 99]"
    by (simp add: icc_metadata_def)
  have l: "int (length (iccName (icc_metadata [1, 2, 3] (Some (Inr [9]))) @ [0, 0] @ [0x78, 9 :: u8])) < 2 ^ 32"
    by (simp add: n)
  have s: "sink_bytes (e_w (session enc0 sink0)) = []"
    by (simp add: session_def enc0_def sink_bytes_def sink0_def)
  from iccp_chunk_from_icc_object [OF a b c d l]
  have "sink_bytes (e_w (maybeWriteICCP X0 (session enc0 sink0) (Some (icc_metadata [1, 2, 3] (Some (Inr [9]))))))
       = frame X0 ''iCCP'' [105, 99, 99, 0, 0, 0x78, 9]"
    by (simp add: n s)
  with a b c d show ?thesis by simp
qed

text \<open>
  With a raw blob and no ICC object, \<^verbatim>\<open>maybeWriteICCP\<close> assigns the blob to its local
  variable and returns: the session is left as it was.
\<close>

lemma iccp_raw_blob_alone_writes_nothing:
  "icc md = None \<Longrightarrow> maybeWriteICCP X e (Some md) = e"
  by (simp add: maybeWriteICCP_def)

section \<open>The sticky error\<close>

text \<open>
  C1 at a failing input: a paletted image whose palette has 257 entries, written to a sink
  whose first write fails. The write of the signature records the error of the sink;
  IHDR, the image data and IEND are no-ops; but the length check of
  \<^verbatim>\<open>writePLTEAndTRNS\<close> does not look at the recorded error and replaces it, so that the
  call returns the \<^verbatim>\<open>FormatError\<close> of the palette and not the first error.
\<close>

theorem palette_check_replaces_first_error:
  "snd (sink_write sink_fail_first pngHeader) = Some (External 1)
   \<and> map_option (\<lambda>r. (fst r, written (snd r)))
        (EncodeExtended X0 enc0 sink_fail_first
           (Fresh (paletted_image 1 1 (replicate 257 opaque_colour) [0])) [])
       = Some (Some (FormatError (BadPaletteLength 257)), [[]])"
  by code_simp

section \<open>The rows written to the compressor\<close>

lemma length_fit [simp]: "length (fit n xs) = n"
  by (simp add: fit_def)

lemma take_1_hd: "xs \<noteq> [] \<Longrightarrow> take (Suc 0) xs = [hd xs]"
  by (cases xs) simp_all

lemma write_rows_unfiltered:
  assumes "length (cr0 crs) = Suc n" and "hd (cr0 crs) = 0" and "length pr = Suc n" and "hd pr = 0"
  shows "write_rows paeth False bpp scan ys crs pr = Some (map (\<lambda>y. of_nat ftNone # fit n (scan y)) ys)"
  using assms
proof (induction ys arbitrary: crs pr)
  case Nil
  show ?case by simp
next
  case (Cons y ys)
  have ne: "cr0 crs \<noteq> []" using Cons.prems(1) by auto
  define c1 where "c1 = crs\<lparr>cr0 := take 1 (cr0 crs) @ fit (length (cr0 crs) - 1) (scan y)\<rparr>"
  have c1: "cr0 c1 = 0 # fit n (scan y)"
    using Cons.prems(1,2) ne by (simp add: c1_def take_1_hd)
  have nxt: "write_rows paeth False bpp scan ys (c1\<lparr>cr0 := pr\<rparr>) (cr0 c1)
      = Some (map (\<lambda>y. of_nat ftNone # fit n (scan y)) ys)"
    using Cons.prems by (intro Cons.IH) (simp_all add: c1)
  have step: "write_rows paeth False bpp scan (y # ys) crs pr
      = map_option ((#) (cr_at c1 ftNone)) (write_rows paeth False bpp scan ys (c1\<lparr>cr0 := pr\<rparr>) (cr0 c1))"
    by (simp only: write_rows.simps Let_def c1_def if_False)
  show ?case
    unfolding step using nxt by (simp add: cr_at_def ftNone_def c1)
qed

lemma write_rows_filtered:
  assumes "rows_ok crs pr n" and "tagged crs" and "hd pr = 0" and "0 \<le> bpp" and "bpp \<le> int n"
  shows "write_rows paeth True bpp scan ys crs pr
           = Some (filtered_rows paeth (nat bpp) (tl pr) (map (\<lambda>y. fit n (scan y)) ys))"
  using assms(1,2,3)
proof (induction ys arbitrary: crs pr)
  case Nil
  show ?case by simp
next
  case (Cons y ys)
  have ne: "cr0 crs \<noteq> []" using Cons.prems(1) by (auto simp: rows_ok_def)
  define c1 where "c1 = crs\<lparr>cr0 := take 1 (cr0 crs) @ fit (length (cr0 crs) - 1) (scan y)\<rparr>"
  have c1: "cr0 c1 = 0 # fit n (scan y)"
    using Cons.prems(1,2) ne by (simp add: c1_def take_1_hd rows_ok_def tagged_def)
  have ok1: "rows_ok c1 pr n" "tagged c1"
    using Cons.prems(1,2) c1 by (simp_all add: rows_ok_def tagged_def c1_def)
  let ?f = "exhaustive_filter paeth (nat bpp) (fit n (scan y)) (tl pr)"
  from filter_png_selected_buffer [OF ok1 assms(4,5), of paeth]
  obtain crs' where run: "filter_png paeth c1 pr bpp = Some (?f, crs')"
    and buf: "cr_at crs' ?f = of_nat ?f # filtered_row paeth (nat bpp) (fit n (scan y)) (tl pr) ?f"
    and ok': "rows_ok crs' pr n" "tagged crs'" "cr0 crs' = cr0 c1"
    by (auto simp: c1)
  have nxt: "write_rows paeth True bpp scan ys (crs'\<lparr>cr0 := pr\<rparr>) (cr0 crs')
      = Some (filtered_rows paeth (nat bpp) (tl (cr0 crs')) (map (\<lambda>y. fit n (scan y)) ys))"
    using ok' Cons.prems c1 by (intro Cons.IH) (simp_all add: rows_ok_def tagged_def)
  have step: "write_rows paeth True bpp scan (y # ys) crs pr
      = (case filter_png paeth c1 pr bpp of
              None \<Rightarrow> None
            | Some (f, crs') \<Rightarrow>
                map_option ((#) (cr_at crs' f))
                  (write_rows paeth True bpp scan ys (crs'\<lparr>cr0 := pr\<rparr>) (cr0 crs')))"
    by (simp only: write_rows.simps Let_def c1_def if_True)
  show ?case
    unfolding step using nxt run buf ok'(3) by (simp add: c1)
qed

lemma tdiv_nonneg: "0 \<le> a \<Longrightarrow> tdiv a 8 = a div 8"
  by (cases "a = 0") (simp_all add: tdiv_def)

lemma bitsPerPixel_nonneg: "0 \<le> bitsPerPixel c"
  by (cases c) (simp_all add: bitsPerPixel_def)

lemma length_resize_tag: "length ((resize buf (Suc n))[0 := k]) = Suc n"
  by (simp add: resize_def)

lemma hd_resize_tag: "hd ((resize buf (Suc n))[0 := k]) = k"
proof -
  have "length (resize buf (Suc n)) = Suc n" by (simp add: resize_def)
  then obtain x xs where "resize buf (Suc n) = x # xs" by (cases "resize buf (Suc n)") auto
  then show ?thesis by simp
qed

lemma writeImage_rows:
  assumes "1 \<le> Dx (bounds m)"
  shows "writeImage X e m c level
           = Some (if uses_filter level c
                   then filtered_rows (ext_paeth X) (nat (tdiv (bitsPerPixel c) 8))
                          (replicate (row_length m c) 0) (raw_rows m c)
                   else map ((#) (of_nat ftNone)) (raw_rows m c))"
proof -
  let ?bits = "bitsPerPixel c"
  let ?a = "?bits * Dx (bounds m) + 7"
  let ?n = "row_length m c"
  have b0: "0 \<le> ?bits" by (rule bitsPerPixel_nonneg)
  have prod: "?bits \<le> ?bits * Dx (bounds m)"
    using b0 assms by (simp add: mult_le_cancel_left1)
  have a0: "0 \<le> ?a" using b0 prod by linarith
  have n: "int ?n = ?a div 8"
    using a0 by (simp add: row_length_def tdiv_nonneg)
  have sz: "nat (1 + tdiv ?a 8) = Suc ?n"
    using a0 by (simp add: row_length_def tdiv_nonneg nat_add_distrib)
  have sz1: "\<not> 1 + tdiv ?a 8 < 1"
    using a0 by (simp add: tdiv_nonneg)
  have bpp0: "0 \<le> tdiv ?bits 8" using b0 by (simp add: tdiv_nonneg)
  have bppn: "tdiv ?bits 8 \<le> int ?n"
  proof -
    have "?bits div 8 \<le> ?a div 8"
      by (rule zdiv_mono1) (use prod in simp_all)
    then show ?thesis using b0 n by (simp add: tdiv_nonneg)
  qed
  let ?crs = "\<lparr>cr0 = (resize (cr0 (e_cr e)) (Suc ?n))[0 := 0],
                      cr1 = (resize (cr1 (e_cr e)) (Suc ?n))[0 := 1],
                      cr2 = (resize (cr2 (e_cr e)) (Suc ?n))[0 := 2],
                      cr3 = (resize (cr3 (e_cr e)) (Suc ?n))[0 := 3],
                      cr4 = (resize (cr4 (e_cr e)) (Suc ?n))[0 := 4]\<rparr>"
  let ?pr = "replicate (Suc ?n) (0 :: u8)"
  let ?ys = "[sint (Min_Y (bounds m)) .. sint (Max_Y (bounds m)) - 1]"
  have run: "writeImage X e m c level
      = write_rows (ext_paeth X) (uses_filter level c) (tdiv ?bits 8) (scanline m c) ?ys ?crs ?pr"
    using sz1 by (simp add: writeImage_def Let_def sz)
  have ok: "rows_ok ?crs ?pr ?n"
    by (simp add: rows_ok_def length_resize_tag del: length_list_update)
  have tg: "tagged ?crs"
    by (simp add: tagged_def hd_resize_tag)
  have raws: "map (\<lambda>y. fit ?n (scanline m c y)) ?ys = raw_rows m c"
    by (simp add: raw_rows_def)
  show ?thesis
  proof (cases "uses_filter level c")
    case True
    have "write_rows (ext_paeth X) True (tdiv ?bits 8) (scanline m c) ?ys ?crs ?pr
        = Some (filtered_rows (ext_paeth X) (nat (tdiv ?bits 8)) (tl ?pr)
                  (map (\<lambda>y. fit ?n (scanline m c y)) ?ys))"
      by (rule write_rows_filtered [OF ok tg _ bpp0 bppn]) simp
    then show ?thesis
      using True by (simp add: run raws)
  next
    case False
    have "write_rows (ext_paeth X) False (tdiv ?bits 8) (scanline m c) ?ys ?crs ?pr
        = Some (map (\<lambda>y. of_nat ftNone # fit ?n (scanline m c y)) ?ys)"
      by (rule write_rows_unfiltered) (simp_all add: length_resize_tag hd_resize_tag del: length_list_update)
    then show ?thesis
      using False by (simp add: run raw_rows_def)
  qed
qed

text \<open>
  C4, counterexample to the claim as stated. The claim says that in the 8-bit paletted
  mode, with compression enabled, the filter selector is invoked for each row. The 2x2
  image with a palette of 17 colours selects the 8-bit paletted mode, and at the default
  compression level each of its rows is written with the None tag and unfiltered, where
  the filter selector would have chosen Paeth for the first row and Up for the second.
\<close>

theorem paletted8_rows_not_filtered_counterexample:
  "select_cb p8_image = cbP8
   \<and> levelToZlib DefaultCompression \<noteq> zlib_NoCompression
   \<and> writeImage X0 zero_encoder p8_image cbP8 (levelToZlib DefaultCompression)
       = Some [[0, 5, 5], [0, 5, 5]]
   \<and> filtered_rows paeth_spec 1 [0, 0] (raw_rows p8_image cbP8) = [[4, 5, 0], [2, 0, 0]]"
  by code_simp

text \<open>
  C4, amended. For an image that passed the size check (width at least 1 and below 2^32),
  per-row filtering is skipped exactly for the four paletted modes, of 1, 2, 4 and 8 bits,
  and whenever the zlib level is NoCompression, which the encoder's NoCompression level
  alone maps to. When it is skipped every row is written with the None filter tag in
  front of its unfiltered bytes; in every other mode with compression enabled every row
  is written as the filter selector leaves it: the tag of the filter that the exhaustive
  selection chooses for the row against the unfiltered row before it (zeros before the
  first row), then the row filtered by that filter.
\<close>

theorem filter_skipped_for_palette_or_no_compression:
  assumes "1 \<le> Dx (bounds m)" and "Dx (bounds m) < 2 ^ 32"
  shows "(uses_filter level c
            \<longleftrightarrow> level \<noteq> zlib_NoCompression \<and> c \<noteq> cbP8 \<and> c \<noteq> cbP4 \<and> c \<noteq> cbP2 \<and> c \<noteq> cbP1)
       \<and> (levelToZlib l = zlib_NoCompression \<longleftrightarrow> l = NoCompression)
       \<and> writeImage X e m c level
           = Some (if uses_filter level c
                   then filtered_rows (ext_paeth X) (nat (tdiv (bitsPerPixel c) 8))
                          (replicate (row_length m c) 0) (raw_rows m c)
                   else map ((#) (of_nat ftNone)) (raw_rows m c))"
proof -
  have lv: "levelToZlib l = zlib_NoCompression \<longleftrightarrow> l = NoCompression"
    by (simp add: levelToZlib_def zlib_NoCompression_def NoCompression_def
        DefaultCompression_def BestSpeed_def BestCompression_def zlib_BestSpeed_def
        zlib_BestCompression_def zlib_DefaultCompression_def)
  show ?thesis
    using writeImage_rows [OF assms(1)] lv by (simp add: uses_filter_def)
qed

text \<open>The theorem at a 2x2 grayscale image at the default compression level.\<close>

theorem filter_skipped_for_palette_or_no_compression_witness:
  "1 \<le> Dx (bounds (gray_image 2 2 0xffff [5, 5]))
   \<and> Dx (bounds (gray_image 2 2 0xffff [5, 5])) < 2 ^ 32
   \<and> uses_filter zlib_DefaultCompression cbG8
   \<and> writeImage X0 zero_encoder (gray_image 2 2 0xffff [5, 5]) cbG8 zlib_DefaultCompression
       = Some (filtered_rows paeth_spec 1 [0, 0] [[5, 5], [5, 5]])"
proof -
  let ?m = "gray_image 2 2 0xffff [5, 5]"
  have a: "1 \<le> Dx (bounds ?m)" "Dx (bounds ?m) < 2 ^ 32"
    by (simp_all add: gray_image_def rect_def Dx_def)
  have u: "uses_filter zlib_DefaultCompression cbG8"
    by (simp add: uses_filter_def zlib_DefaultCompression_def zlib_NoCompression_def)
  have n: "row_length ?m cbG8 = 2"
    by code_simp
  have r: "raw_rows ?m cbG8 = [[5, 5], [5, 5]]"
    by code_simp
  have b: "nat (tdiv (bitsPerPixel cbG8) 8) = 1"
    by (simp add: bitsPerPixel_def tdiv_def)
  have p: "ext_paeth X0 = paeth_spec"
    by (simp add: X0_def)
  from filter_skipped_for_palette_or_no_compression
    [where m = ?m and level = zlib_DefaultCompression and c = cbG8 and l = NoCompression
       and X = X0 and e = zero_encoder, OF a]
  show ?thesis
    using a u by (simp add: n r b p numeral_2_eq_2)
qed

section \<open>The order of the chunks\<close>

text \<open>
  Every writer of the session, as a step that emits a list of chunks: once the session
  holds an error no later step clears it, so a session that ends without error has
  written every chunk of every step, in the order of the steps.
\<close>

lemma sink_write_ok:
  "snd (sink_write s p) = None \<Longrightarrow> sink_bytes (fst (sink_write s p)) = sink_bytes s @ p"
  by (auto simp: sink_write_def sink_bytes_def split: option.splits)

lemma emits_refl: "emits X e e []"
  by (simp add: emits_def stream_def)

lemma emits_trans: "emits X e e' cs \<Longrightarrow> emits X e' e'' ds \<Longrightarrow> emits X e e'' (cs @ ds)"
  by (auto simp: emits_def stream_def)

lemma emits_tmp: "emits X (e\<lparr>e_tmp := t\<rparr>) e' cs \<Longrightarrow> emits X e e' cs"
  by (simp add: emits_def)

lemma emits_failed: "e_err e \<noteq> None \<Longrightarrow> emits X e e cs"
  by (auto simp: emits_def)

lemma emits_set_err: "emits X e (e\<lparr>e_err := Some x\<rparr>) cs"
  by (simp add: emits_def)

lemma emits_writeChunk: "emits X e (writeChunk X e b name) [Chunk name b]"
proof -
  let ?h = "be32 (of_nat (length b)) @ chunk_name name"
  let ?f = "be32 (crc32_ieee X (chunk_name name @ b))"
  obtain w1 r1 where s1: "sink_write (e_w e) ?h = (w1, r1)" by (cases "sink_write (e_w e) ?h")
  obtain w2 r2 where s2: "sink_write w1 b = (w2, r2)" by (cases "sink_write w1 b")
  obtain w3 r3 where s3: "sink_write w2 ?f = (w3, r3)" by (cases "sink_write w2 ?f")
  have b1: "r1 = None \<Longrightarrow> sink_bytes w1 = sink_bytes (e_w e) @ ?h"
    using sink_write_ok [of "e_w e" ?h] by (simp add: s1)
  have b2: "r2 = None \<Longrightarrow> sink_bytes w2 = sink_bytes w1 @ b"
    using sink_write_ok [of w1 b] by (simp add: s2)
  have b3: "r3 = None \<Longrightarrow> sink_bytes w3 = sink_bytes w2 @ ?f"
    using sink_write_ok [of w2 ?f] by (simp add: s3)
  show ?thesis
    using b1 b2 b3
    by (auto simp: emits_def writeChunk_def Let_def s1 s2 s3 stream_def frame_def
        split: option.splits)
qed

lemma emits_writeChunk_tmp: "emits X e (writeChunk X (e\<lparr>e_tmp := t\<rparr>) b name) [Chunk name b]"
  by (rule emits_tmp) (rule emits_writeChunk)

lemma slice_be32: "slice_of (put t 0 (be32 g)) 0 4 = be32 g"
  by (simp add: slice_of_def put_def be32_def upt_rec)

lemma emits_GAMA: "emits X e (maybeWriteGAMA X e (Some md)) (gama_chunks md)"
  by (auto simp: maybeWriteGAMA_def gama_chunks_def Let_def slice_be32 emits_refl emits_failed
      emits_writeChunk_tmp split: option.splits)

lemma emits_SRGB: "emits X e (maybeWriteSRGB X e (Some md)) (srgb_chunks md)"
  by (auto simp: maybeWriteSRGB_def srgb_chunks_def Let_def slice_of_def emits_refl emits_failed
      emits_writeChunk_tmp split: option.splits)

lemma slice_chrm:
  "slice_of (put (put (put (put (put (put (put (put t 0 (be32 a)) 4 (be32 b)) 8 (be32 c)) 12 (be32 d))
      16 (be32 e)) 20 (be32 f)) 24 (be32 g)) 28 (be32 h)) 0 32
     = be32 a @ be32 b @ be32 c @ be32 d @ be32 e @ be32 f @ be32 g @ be32 h"
  by (simp add: slice_of_def put_def be32_def upt_rec)

lemma emits_CHRM: "emits X e (maybeWriteCHRM X e (Some md)) (chrm_chunks md)"
  by (auto simp: maybeWriteCHRM_def chrm_chunks_def Let_def slice_chrm emits_refl emits_failed
      emits_writeChunk_tmp split: option.splits)

lemma slice_time:
  "slice_of ((put t 0 (be16 y))(2 := a, 3 := b, 4 := c, 5 := d, 6 := e)) 0 7
     = be16 y @ [a, b, c, d, e]"
  by (simp add: slice_of_def put_def be16_def upt_rec)

lemma emits_TIME: "emits X e (maybeWriteTIME X e (Some md)) (time_chunks md)"
  by (auto simp: maybeWriteTIME_def time_chunks_def Let_def slice_time emits_refl emits_failed
      emits_writeChunk_tmp split: option.splits)

lemma slice_phys:
  "slice_of ((put (put t 0 (be32 a)) 4 (be32 b))(8 := c)) 0 9 = be32 a @ be32 b @ [c]"
  by (simp add: slice_of_def put_def be32_def upt_rec)

lemma emits_PHYS: "emits X e (maybeWritePHYS X e (Some md)) (phys_chunks md)"
  by (auto simp: maybeWritePHYS_def phys_chunks_def Let_def slice_phys emits_refl emits_failed
      emits_writeChunk_tmp split: option.splits)

lemma emits_HIST: "emits X e (maybeWriteHIST X e m) (hist_chunks m)"
  by (auto simp: maybeWriteHIST_def hist_chunks_def Let_def emits_refl emits_failed
      emits_writeChunk split: option.splits)

lemma emits_TEXT: "emits X e (maybeWriteTEXT X e t) (text_chunk t)"
  by (auto simp: maybeWriteTEXT_def text_chunk_def emits_failed emits_writeChunk)

lemma emits_ITXT: "emits X e (maybeWriteITXT X e t) (itxt_chunk X (levelToZlib (e_level e)) t)"
  by (auto simp: maybeWriteITXT_def itxt_chunk_def pngCompress_def emits_failed emits_writeChunk
      emits_set_err split: sum.splits)

lemma emits_ZTXT:
  assumes "maybeWriteZTXT X e t = Some e'"
  shows "emits X e e' (ztxt_chunk X (levelToZlib (e_level e)) t)"
proof (cases "e_err e = None")
  case False
  then show ?thesis using assms by (auto simp: maybeWriteZTXT_def emits_failed)
next
  case ok: True
  show ?thesis
  proof (cases "zlib_stream X (levelToZlib (e_level e)) (Value t)")
    case (Inl x)
    then show ?thesis
      using assms ok by (auto simp: maybeWriteZTXT_def pngCompress_def emits_set_err)
  next
    case (Inr z)
    let ?k = "length (Key t)"
    have pc: "pngCompress X e (Value t) = Inr (z, 0)"
      by (simp add: pngCompress_def Inr)
    have le: "?k + 2 + length z \<le> 1024"
      using assms ok pc by (auto simp: maybeWriteZTXT_def Let_def split: if_splits)
    let ?t4 = "if z \<noteq> [] then put ((put (e_tmp e) 0 (Key t))(?k := 0, ?k + 1 := word_of_int 0)) (?k + 2) (take (1024 - (?k + 2)) z)
                   else (put (e_tmp e) 0 (Key t))(?k := 0, ?k + 1 := word_of_int 0)"
    have "maybeWriteZTXT X e t
        = Some (writeChunk X (e\<lparr>e_tmp := ?t4\<rparr>) (slice_of ?t4 0 (?k + 2 + length z)) ''zTXt'')"
      using le ok pc by (simp add: maybeWriteZTXT_def Let_def)
    also have "slice_of ?t4 0 (?k + 2 + length z) = Key t @ [0, word_of_int 0] @ z"
      by (rule ztxt_payload [OF refl le])
    finally have "e' = writeChunk X (e\<lparr>e_tmp := ?t4\<rparr>) (Key t @ [0, 0] @ z) ''zTXt''"
      using assms by simp
    then show ?thesis
      by (simp add: ztxt_chunk_def Inr emits_writeChunk_tmp)
  qed
qed

lemma emits_ICCP:
  "emits X e (maybeWriteICCP X e (Some md)) (iccp_chunks X (levelToZlib (e_level e)) md)"
  by (auto simp: maybeWriteICCP_def iccp_chunks_def pngCompress_def emits_failed emits_refl
      emits_writeChunk emits_set_err split: sum.splits option.splits)

lemma emits_XMP:
  "emits X e (maybeWriteXMP X e (Some md)) (xmp_chunks X (levelToZlib (e_level e)) md)"
proof (cases "xmp md")
  case None
  show ?thesis
  proof (cases "rawXmp md")
    case n: None
    show ?thesis by (simp add: maybeWriteXMP_def xmp_chunks_def None n emits_refl)
  next
    case (Some r)
    show ?thesis
      using emits_failed [of e X]
      by (simp add: maybeWriteXMP_def xmp_chunks_def None Some emits_ITXT)
  qed
next
  case (Some r)
  show ?thesis
    using emits_failed [of e X]
    by (cases r) (simp_all add: maybeWriteXMP_def xmp_chunks_def Some emits_ITXT emits_set_err)
qed

lemma emits_level: "emits X e e' cs \<Longrightarrow> e_level e' = e_level e"
  by (simp add: emits_def)

lemma emits_texts:
  "write_texts X e vs = Some e' \<Longrightarrow>
     emits X e e' (concat (map (entry_chunks X (levelToZlib (e_level e))) vs))"
proof (induction vs arbitrary: e)
  case Nil
  then show ?case by (simp add: emits_refl)
next
  case (Cons v vs)
  let ?lvl = "levelToZlib (e_level e)"
  show ?case
  proof (cases "EntryType v")
    case EtText
    let ?e1 = "maybeWriteTEXT X e v"
    have a: "emits X e ?e1 (entry_chunks X ?lvl v)"
      by (simp add: entry_chunks_def EtText emits_TEXT)
    have "write_texts X ?e1 vs = Some e'" using Cons.prems EtText by simp
    from Cons.IH [OF this] emits_level [OF a]
    have "emits X ?e1 e' (concat (map (entry_chunks X ?lvl) vs))" by simp
    from emits_trans [OF a this] show ?thesis by simp
  next
    case EtZtext
    from Cons.prems EtZtext obtain e1 where z: "maybeWriteZTXT X e v = Some e1"
      and r: "write_texts X e1 vs = Some e'"
      by (auto split: option.splits)
    have a: "emits X e e1 (entry_chunks X ?lvl v)"
      by (simp add: entry_chunks_def EtZtext emits_ZTXT [OF z])
    from Cons.IH [OF r] emits_level [OF a]
    have "emits X e1 e' (concat (map (entry_chunks X ?lvl) vs))" by simp
    from emits_trans [OF a this] show ?thesis by simp
  next
    case EtItext
    let ?e1 = "maybeWriteITXT X e v"
    have a: "emits X e ?e1 (entry_chunks X ?lvl v)"
      by (simp add: entry_chunks_def EtItext emits_ITXT)
    have "write_texts X ?e1 vs = Some e'" using Cons.prems EtItext by simp
    from Cons.IH [OF this] emits_level [OF a]
    have "emits X ?e1 e' (concat (map (entry_chunks X ?lvl) vs))" by simp
    from emits_trans [OF a this] show ?thesis by simp
  next
    case EtOther
    have "write_texts X e vs = Some e'" using Cons.prems EtOther by simp
    from Cons.IH [OF this] show ?thesis by (simp add: entry_chunks_def EtOther)
  qed
qed

lemma emits_metadata:
  assumes "write_metadata X e md = Some e'"
  shows "emits X e e' (metadata_chunks X (levelToZlib (e_level e)) (Some md))"
proof -
  let ?lvl = "levelToZlib (e_level e)"
  define e1 where "e1 = maybeWriteGAMA X e (Some md)"
  define e2 where "e2 = maybeWriteCHRM X e1 (Some md)"
  define e3 where "e3 = maybeWriteSRGB X e2 (Some md)"
  define e4 where "e4 = maybeWriteTIME X e3 (Some md)"
  define e5 where "e5 = maybeWriteICCP X e4 (Some md)"
  define e6 where "e6 = maybeWritePHYS X e5 (Some md)"
  define e7 where "e7 = maybeWriteXMP X e6 (Some md)"
  have r: "write_texts X e7 (Text md) = Some e'"
    using assms by (simp add: write_metadata_def Let_def e1_def e2_def e3_def e4_def e5_def e6_def e7_def)
  have s1: "emits X e e1 (gama_chunks md)" by (simp add: e1_def emits_GAMA)
  have s2: "emits X e1 e2 (chrm_chunks md)" by (simp add: e2_def emits_CHRM)
  have s3: "emits X e2 e3 (srgb_chunks md)" by (simp add: e3_def emits_SRGB)
  have s4: "emits X e3 e4 (time_chunks md)" by (simp add: e4_def emits_TIME)
  have l4: "e_level e4 = e_level e"
    using s1 s2 s3 s4 by (simp add: emits_def)
  have s5: "emits X e4 e5 (iccp_chunks X ?lvl md)"
    using emits_ICCP [of X e4 md] by (simp add: e5_def l4)
  have s6: "emits X e5 e6 (phys_chunks md)" by (simp add: e6_def emits_PHYS)
  have l6: "e_level e6 = e_level e"
    using s5 s6 l4 by (simp add: emits_def)
  have s7: "emits X e6 e7 (xmp_chunks X ?lvl md)"
    using emits_XMP [of X e6 md] by (simp add: e7_def l6)
  have l7: "e_level e7 = e_level e"
    using s7 l6 by (simp add: emits_def)
  have s8: "emits X e7 e' (concat (map (entry_chunks X ?lvl) (Text md)))"
    using emits_texts [OF r] by (simp add: l7)
  from emits_trans [OF s1 emits_trans [OF s2 emits_trans [OF s3 emits_trans [OF s4
        emits_trans [OF s5 emits_trans [OF s6 emits_trans [OF s7 s8]]]]]]]
  show ?thesis by (simp add: metadata_chunks_def)
qed

lemma select_cb_valid: "select_cb m \<noteq> cbInvalid"
  by (simp add: select_cb_def split: option.splits color_model.splits)

lemma slice_ihdr:
  "slice_of ((put (put t 0 (be32 a)) 4 (be32 b))(8 := c, 9 := d, 10 := 0, 11 := 0, 12 := 0)) 0 13
     = be32 a @ be32 b @ [c, d, 0, 0, 0]"
  by (simp add: slice_of_def put_def be32_def upt_rec)

lemma emits_IHDR:
  assumes "e_cb e = select_cb m"
  shows "emits X e (writeIHDR X e m) [Chunk ''IHDR'' (ihdr_payload X m)]"
proof -
  have v: "select_cb m \<noteq> cbInvalid" by (rule select_cb_valid)
  show ?thesis
    using v
    by (cases "select_cb m")
      (simp_all add: writeIHDR_def assms Let_def slice_ihdr ihdr_payload_def bit_depth_def
        colour_type_def emits_writeChunk_tmp)
qed

lemma emits_PLTE: "emits X e (writePLTEAndTRNS X e p) (palette_chunks p)"
proof (cases "1 \<le> length p \<and> length p \<le> 256")
  case False
  then have "length p = 0 \<or> 256 < length p" by (cases p) auto
  then show ?thesis by (simp add: writePLTEAndTRNS_bad_length emits_set_err)
next
  case len: True
  define t lst where "t = fst (plte_loop (e_tmp e) (- 1) p 0)"
    and "lst = snd (plte_loop (e_tmp e) (- 1) p 0)"
  have pl: "plte_loop (e_tmp e) (- 1) p 0 = (t, lst)" by (simp add: t_def lst_def)
  from plte_loop_char [of 0 p "e_tmp e" "- 1"] len
  have rgb: "slice_of t 0 (3 * length p) = plte_payload p"
    and alpha: "slice_of t (3 * 256) (3 * 256 + length p) = map c_A p"
    and l: "lst = (if list_all fully_opaque p then - 1 else int (last_nonopaque p))"
    by (simp_all add: t_def lst_def slice_of_def)
  define e1 where "e1 = writeChunk X (e\<lparr>e_tmp := t\<rparr>) (plte_payload p) ''PLTE''"
  have s1: "emits X e e1 [Chunk ''PLTE'' (plte_payload p)]"
    by (simp add: e1_def emits_writeChunk_tmp)
  have run: "writePLTEAndTRNS X e p
      = (if lst \<noteq> - 1 then writeChunk X e1 (slice_of t (3 * 256) (3 * 256 + 1 + nat lst)) ''tRNS''
         else e1)"
  proof -
    have "\<not> (length p < 1 \<or> 256 < length p)" using len by auto
    then show ?thesis
      by (simp only: writePLTEAndTRNS_def pl rgb e1_def Let_def if_False prod.case)
  qed
  show ?thesis
  proof (cases "list_all fully_opaque p")
    case True
    then show ?thesis using run l s1 by (simp add: palette_chunks_def)
  next
    case False
    note ch = last_nonopaque_char [OF False]
    have ln: "Suc (last_nonopaque p) \<le> length p" using ch by simp
    have "slice_of t (3 * 256) (3 * 256 + 1 + nat lst)
        = slice_of t (3 * 256) (3 * 256 + Suc (last_nonopaque p))"
      using False l by simp
    also have "\<dots> = take (Suc (last_nonopaque p)) (slice_of t (3 * 256) (3 * 256 + length p))"
      by (rule slice_take [OF ln])
    also have "\<dots> = map c_A (take (Suc (last_nonopaque p)) p)"
      using alpha by (simp add: take_map)
    finally have pay: "slice_of t (3 * 256) (3 * 256 + 1 + nat lst)
        = map c_A (take (Suc (last_nonopaque p)) p)" .
    have "lst \<noteq> - 1" using False l by simp
    then have r: "writePLTEAndTRNS X e p
        = writeChunk X e1 (map c_A (take (Suc (last_nonopaque p)) p)) ''tRNS''"
      using run pay by simp
    have s2: "emits X e1 (writePLTEAndTRNS X e p)
        [Chunk ''tRNS'' (map c_A (take (Suc (last_nonopaque p)) p))]"
      by (simp add: r emits_writeChunk)
    from emits_trans [OF s1 s2] False show ?thesis by (simp add: palette_chunks_def)
  qed
qed

lemma emits_chunks:
  "emits X e (foldl (\<lambda>e b. writeChunk X e b name) e bs) (map (Chunk name) bs)"
proof (induction bs arbitrary: e)
  case Nil
  show ?case by (simp add: emits_refl)
next
  case (Cons b bs)
  from emits_trans [OF emits_writeChunk [of X e b name] Cons.IH [of "writeChunk X e b name"]]
  show ?case by simp
qed

lemma emits_IDATs:
  assumes "writeIDATs X e m = Some e'" and "1 \<le> Dx (bounds m)" and "e_cb e = select_cb m"
  shows "emits X e e'
           (map (Chunk ''IDAT'')
              (zlib_writes X (levelToZlib (e_level e)) (emitted_rows X (levelToZlib (e_level e)) m)))"
proof (cases "e_err e = None")
  case False
  then show ?thesis using assms by (auto simp: writeIDATs_def emits_failed)
next
  case True
  then show ?thesis
    using assms(1)
    by (auto simp: writeIDATs_def writeImage_rows [OF assms(2)] assms(3) emitted_rows_def
        emits_chunks)
qed

lemma emits_captured:
  "map_option (\<lambda>b. writeChunk X e b name) (drop_crc b) = Some e' \<Longrightarrow>
     emits X e e' (captured name (Some b))"
  by (auto simp: drop_crc_def captured_def emits_writeChunk split: if_splits)

lemma emits_captured_opt:
  assumes "(case ob of None \<Rightarrow> Some e | Some b \<Rightarrow> map_option (\<lambda>b. writeChunk X e b name) (drop_crc b))
      = Some e'"
  shows "emits X e e' (captured name ob)"
proof (cases ob)
  case None
  then show ?thesis using assms by (simp add: emits_refl captured_def)
next
  case (Some b)
  from assms have "map_option (\<lambda>b. writeChunk X e b name) (drop_crc b) = Some e'"
    by (simp add: Some)
  from emits_captured [OF this] show ?thesis by (simp add: Some)
qed

lemma emits_signature:
  assumes "emits X (case sink_write w pngHeader of (w1, r) \<Rightarrow> e\<lparr>e_w := w1, e_err := r\<rparr>) e' cs"
    and "e_err e' = None"
  shows "sink_bytes (e_w e') = sink_bytes w @ pngHeader @ stream X cs"
proof -
  obtain w1 r where s: "sink_write w pngHeader = (w1, r)" by (cases "sink_write w pngHeader")
  from assms have r: "r = None" and b: "sink_bytes (e_w e') = sink_bytes w1 @ stream X cs"
    by (simp_all add: emits_def s)
  from sink_write_ok [of w pngHeader] r have "sink_bytes w1 = sink_bytes w @ pngHeader"
    by (simp add: s)
  then show ?thesis using b by simp
qed

lemma size_check_fresh: "size_check (Fresh im) = None \<Longrightarrow> 1 \<le> Dx (bounds im)"
  by (auto simp: size_check_def Let_def split: if_splits)

lemma encode_fresh:
  assumes "EncodeExtended X enc w (Fresh im) opts = Some (None, w')"
    and ro: "read_opts opts None = Inr md" and sc: "size_check (Fresh im) = None"
  shows "sink_bytes w' = sink_bytes w @ pngHeader
           @ stream X (expected_chunks X (levelToZlib (CompressionLevel enc)) (Fresh im) md)"
proof -
  let ?lvl = "levelToZlib (CompressionLevel enc)"
  define e0 where "e0 = (session enc w)\<lparr>e_cb := select_cb im\<rparr>"
  define e1 where "e1 = (case sink_write (e_w e0) pngHeader of (w1, r) \<Rightarrow> e0\<lparr>e_w := w1, e_err := r\<rparr>)"
  define e2 where "e2 = writeIHDR X e1 im"
  have w0: "e_w e0 = w" "e_level e0 = CompressionLevel enc" "e_cb e0 = select_cb im"
    by (simp_all add: e0_def session_def)
  have l1: "e_level e1 = CompressionLevel enc" and c1: "e_cb e1 = select_cb im"
    using w0 by (simp_all add: e1_def split: prod.splits)
  from assms have "\<exists>e3 e6. (case md of None \<Rightarrow> Some e2 | Some d \<Rightarrow> write_metadata X e2 d) = Some e3
      \<and> writeIDATs X (maybeWriteHIST X (case palette im of Some pal \<Rightarrow> writePLTEAndTRNS X e3 pal
                                          | None \<Rightarrow> e3) md) im = Some e6
      \<and> e_err (writeIEND X e6) = None \<and> w' = e_w (writeIEND X e6)"
    unfolding EncodeExtended_def e2_def e1_def e0_def
    by (auto simp: Let_def split: Option.bind_splits)
  then obtain e3 e6 where m3: "(case md of None \<Rightarrow> Some e2 | Some d \<Rightarrow> write_metadata X e2 d) = Some e3"
    and d6: "writeIDATs X (maybeWriteHIST X (case palette im of Some pal \<Rightarrow> writePLTEAndTRNS X e3 pal
                                          | None \<Rightarrow> e3) md) im = Some e6"
    and ok: "e_err (writeIEND X e6) = None" and w': "w' = e_w (writeIEND X e6)"
    by blast
  define e4 where "e4 = (case palette im of Some pal \<Rightarrow> writePLTEAndTRNS X e3 pal | None \<Rightarrow> e3)"
  define e5 where "e5 = maybeWriteHIST X e4 md"
  have s2: "emits X e1 e2 [Chunk ''IHDR'' (ihdr_payload X im)]"
    by (simp add: e2_def emits_IHDR [OF c1])
  have l2: "e_level e2 = CompressionLevel enc" "e_cb e2 = select_cb im"
    using s2 l1 c1 by (simp_all add: emits_def)
  have s3: "emits X e2 e3 (metadata_chunks X ?lvl md)"
  proof (cases md)
    case None
    then show ?thesis using m3 by (simp add: metadata_chunks_def emits_refl)
  next
    case (Some d)
    then have "write_metadata X e2 d = Some e3" using m3 by simp
    from emits_metadata [OF this] show ?thesis by (simp add: l2 Some)
  qed
  have s4: "emits X e3 e4 (case palette im of None \<Rightarrow> [] | Some p \<Rightarrow> palette_chunks p)"
    by (cases "palette im") (simp_all add: e4_def emits_refl emits_PLTE)
  have s5: "emits X e4 e5 (hist_chunks md)"
    by (simp add: e5_def emits_HIST)
  have l5: "e_level e5 = CompressionLevel enc" "e_cb e5 = select_cb im"
    using s3 s4 s5 l2 by (simp_all add: emits_def)
  have d6': "writeIDATs X e5 im = Some e6"
    using d6 by (simp add: e5_def e4_def)
  have s6: "emits X e5 e6 (map (Chunk ''IDAT'') (zlib_writes X ?lvl (emitted_rows X ?lvl im)))"
    using emits_IDATs [OF d6' size_check_fresh [OF sc] l5(2)] by (simp add: l5)
  have s7: "emits X e6 (writeIEND X e6) [Chunk ''IEND'' []]"
    by (simp add: writeIEND_def emits_writeChunk)
  from emits_trans [OF s2 emits_trans [OF s3 emits_trans [OF s4 emits_trans [OF s5
        emits_trans [OF s6 s7]]]]]
  have all: "emits X e1 (writeIEND X e6)
      (expected_chunks X ?lvl (Fresh im) md)"
    by (simp add: expected_chunks_def ihdr_chunks_def plte_trns_chunks_def idat_chunks_def)
  from emits_signature [OF all [unfolded e1_def] ok] show ?thesis
    by (simp add: w' w0)
qed

lemma encode_deferred:
  assumes "EncodeExtended X enc w (Deferred di) opts = Some (None, w')"
    and ro: "read_opts opts None = Inr md"
  shows "sink_bytes w' = sink_bytes w @ pngHeader
           @ stream X (expected_chunks X (levelToZlib (CompressionLevel enc)) (Deferred di) md)"
proof -
  let ?lvl = "levelToZlib (CompressionLevel enc)"
  define e0 where "e0 = session enc w"
  define e1 where "e1 = (case sink_write (e_w e0) pngHeader of (w1, r) \<Rightarrow> e0\<lparr>e_w := w1, e_err := r\<rparr>)"
  have w0: "e_w e0 = w" "e_level e0 = CompressionLevel enc"
    by (simp_all add: e0_def session_def)
  have l1: "e_level e1 = CompressionLevel enc"
    using w0 by (simp_all add: e1_def split: prod.splits)
  have sc: "size_check (Deferred di) = None" by (simp add: size_check_def)
  from assms sc have "\<exists>e2 e3 e4 e5 e6.
        map_option (\<lambda>b. writeChunk X e1 b ''IHDR'') (drop_crc (ihdr di)) = Some e2
      \<and> (case md of None \<Rightarrow> Some e2 | Some d \<Rightarrow> write_metadata X e2 d) = Some e3
      \<and> (case plte di of None \<Rightarrow> Some e3
          | Some b \<Rightarrow> map_option (\<lambda>b. writeChunk X e3 b ''PLTE'') (drop_crc b)) = Some e4
      \<and> (case trns di of None \<Rightarrow> Some e4
          | Some b \<Rightarrow> map_option (\<lambda>b. writeChunk X e4 b ''tRNS'') (drop_crc b)) = Some e5
      \<and> (case idat di of None \<Rightarrow> Some (maybeWriteHIST X e5 md)
          | Some b \<Rightarrow> map_option (\<lambda>b. writeChunk X (maybeWriteHIST X e5 md) b ''IDAT'') (drop_crc b))
          = Some e6
      \<and> e_err (writeIEND X e6) = None \<and> w' = e_w (writeIEND X e6)"
    unfolding EncodeExtended_def e1_def e0_def
    by (auto simp: Let_def split: Option.bind_splits)
  then obtain e2 e3 e4 e5 e6 where
        h2: "map_option (\<lambda>b. writeChunk X e1 b ''IHDR'') (drop_crc (ihdr di)) = Some e2"
    and m3: "(case md of None \<Rightarrow> Some e2 | Some d \<Rightarrow> write_metadata X e2 d) = Some e3"
    and p4: "(case plte di of None \<Rightarrow> Some e3
          | Some b \<Rightarrow> map_option (\<lambda>b. writeChunk X e3 b ''PLTE'') (drop_crc b)) = Some e4"
    and t5: "(case trns di of None \<Rightarrow> Some e4
          | Some b \<Rightarrow> map_option (\<lambda>b. writeChunk X e4 b ''tRNS'') (drop_crc b)) = Some e5"
    and d6: "(case idat di of None \<Rightarrow> Some (maybeWriteHIST X e5 md)
          | Some b \<Rightarrow> map_option (\<lambda>b. writeChunk X (maybeWriteHIST X e5 md) b ''IDAT'') (drop_crc b))
          = Some e6"
    and ok: "e_err (writeIEND X e6) = None" and w': "w' = e_w (writeIEND X e6)"
    by blast
  have s2: "emits X e1 e2 (captured ''IHDR'' (Some (ihdr di)))"
    by (rule emits_captured [OF h2])
  have l2: "e_level e2 = CompressionLevel enc"
    using s2 l1 by (simp_all add: emits_def)
  have s3: "emits X e2 e3 (metadata_chunks X ?lvl md)"
  proof (cases md)
    case None
    then show ?thesis using m3 by (simp add: metadata_chunks_def emits_refl)
  next
    case (Some d)
    then have "write_metadata X e2 d = Some e3" using m3 by simp
    from emits_metadata [OF this] show ?thesis by (simp add: l2 Some)
  qed
  have s4: "emits X e3 e4 (captured ''PLTE'' (plte di))"
    by (rule emits_captured_opt [OF p4])
  have s5: "emits X e4 e5 (captured ''tRNS'' (trns di))"
    by (rule emits_captured_opt [OF t5])
  have s5': "emits X e5 (maybeWriteHIST X e5 md) (hist_chunks md)"
    by (rule emits_HIST)
  have s6: "emits X (maybeWriteHIST X e5 md) e6 (captured ''IDAT'' (idat di))"
    by (rule emits_captured_opt [OF d6])
  have s7: "emits X e6 (writeIEND X e6) [Chunk ''IEND'' []]"
    by (simp add: writeIEND_def emits_writeChunk)
  from emits_trans [OF s2 emits_trans [OF s3 emits_trans [OF s4 emits_trans [OF s5
        emits_trans [OF s5' emits_trans [OF s6 s7]]]]]]
  have all: "emits X e1 (writeIEND X e6) (expected_chunks X ?lvl (Deferred di) md)"
    by (simp add: expected_chunks_def ihdr_chunks_def plte_trns_chunks_def idat_chunks_def)
  from emits_signature [OF all [unfolded e1_def] ok] show ?thesis
    by (simp add: w' w0)
qed

text \<open>
  C8, counterexample to the claim as stated. The claim puts one or more IDAT chunks into
  the stream of every successful encode. A deferred source holds the chunks it captured,
  and \<^verbatim>\<open>EncodeExtended\<close> writes its IDAT chunk only \<^verbatim>\<open>if di.idat != nil\<close>: for the
  source that captured no IDAT blob the encode succeeds and the stream is the signature,
  IHDR and IEND, with no IDAT chunk.
\<close>

theorem deferred_without_idat_counterexample:
  "map_option (\<lambda>r. (fst r, sink_bytes (snd r))) (EncodeExtended X0 enc0 sink0 (Deferred bare_deferred) [])
     = Some (None, pngHeader @ frame X0 ''IHDR'' [0, 0, 0, 1, 0, 0, 0, 1, 8, 0, 0, 0, 0]
                     @ frame X0 ''IEND'' [])
   \<and> chunk_names (expected_chunks X0 (levelToZlib DefaultCompression) (Deferred bare_deferred) None)
       = [''IHDR'', ''IEND'']
   \<and> idat_chunks X0 (levelToZlib DefaultCompression) (Deferred bare_deferred) = []"
  by code_simp

text \<open>
  C8, amended. For every successful encode (the call returns no error) whose metadata
  bundle, if one is passed, does not carry a raw ICC blob without an ICC object, the bytes
  added to the sink are the 8-byte PNG signature, then IHDR, then, if a bundle was passed,
  its ancillary chunks in the fixed order gAMA, cHRM, sRGB, tIME, iCCP, pHYs, XMP as iTXt,
  each if its field is present, then each text entry in order (tEXt, zTXt or iTXt by its
  declared type); then PLTE, followed by tRNS if some palette entry is not fully opaque,
  for a paletted image (for a deferred source the captured PLTE and the captured tRNS);
  then hIST if the bundle has a histogram; then the IDAT chunks; then IEND. Nothing else
  is written and nothing is reordered. For a fresh image there are one or more IDAT
  chunks, one for each slice that the buffered compressor hands over, which by its
  contract is at least one; for a deferred source the captured IDAT blob is written as one
  chunk, and no IDAT chunk is written when none was captured.
\<close>

theorem chunk_emission_order:
  assumes "EncodeExtended X enc w m opts = Some (None, w')"
    and "read_opts opts None = Inr md"
    and "\<not> raw_icc_alone md"
    and "compressor_writes X (levelToZlib (CompressionLevel enc)) m"
  shows "sink_bytes w'
           = sink_bytes w @ pngHeader
               @ stream X
                   (ihdr_chunks X m
                      @ metadata_chunks X (levelToZlib (CompressionLevel enc)) md
                      @ plte_trns_chunks m
                      @ hist_chunks md
                      @ idat_chunks X (levelToZlib (CompressionLevel enc)) m
                      @ [Chunk ''IEND'' []])
       \<and> (case m of
            Fresh im \<Rightarrow> 1 \<le> length (idat_chunks X (levelToZlib (CompressionLevel enc)) m)
          | Deferred di \<Rightarrow>
              length (idat_chunks X (levelToZlib (CompressionLevel enc)) m)
                = (if idat di = None then 0 else 1))"
proof -
  let ?lvl = "levelToZlib (CompressionLevel enc)"
  have sc: "size_check m = None"
    using assms(1,2) by (auto simp: EncodeExtended_def split: option.splits)
  have layout: "sink_bytes w' = sink_bytes w @ pngHeader @ stream X (expected_chunks X ?lvl m md)"
  proof (cases m)
    case (Fresh im)
    from encode_fresh [OF assms(1) [unfolded Fresh] assms(2) sc [unfolded Fresh]] Fresh
    show ?thesis by simp
  next
    case (Deferred di)
    from encode_deferred [OF assms(1) [unfolded Deferred] assms(2)] Deferred
    show ?thesis by simp
  qed
  have count: "(case m of
            Fresh im \<Rightarrow> 1 \<le> length (idat_chunks X ?lvl m)
          | Deferred di \<Rightarrow> length (idat_chunks X ?lvl m) = (if idat di = None then 0 else 1))"
  proof (cases m)
    case (Fresh im)
    then have "zlib_writes X ?lvl (emitted_rows X ?lvl im) \<noteq> []"
      using assms(4) by (simp add: compressor_writes_def)
    then have "1 \<le> length (zlib_writes X ?lvl (emitted_rows X ?lvl im))"
      by (cases "zlib_writes X ?lvl (emitted_rows X ?lvl im)") simp_all
    then show ?thesis by (simp add: Fresh idat_chunks_def)
  next
    case (Deferred di)
    then show ?thesis by (cases "idat di") (simp_all add: idat_chunks_def captured_def)
  qed
  show ?thesis
    using layout count by (simp add: expected_chunks_def)
qed

text \<open>
  The theorem at the metadata ordering scenario: a 1x1 grayscale image with a gamma of
  45455, a physical dimension and one text entry.
\<close>

theorem chunk_emission_order_witness:
  "\<exists>w'. EncodeExtended X0 enc0 sink0 (Fresh (gray_image 1 1 0xffff [7]))
            [OptMetadata scenario_metadata] = Some (None, w')
       \<and> sink_bytes w'
           = pngHeader
               @ stream X0
                   [Chunk ''IHDR'' [0, 0, 0, 1, 0, 0, 0, 1, 8, 0, 0, 0, 0],
                    Chunk ''gAMA'' [0, 0, 0xB1, 0x8F],
                    Chunk ''pHYs'' [0, 0, 0x0B, 0x13, 0, 0, 0x0B, 0x13, 1],
                    Chunk ''tEXt'' [65, 0, 66],
                    Chunk ''IDAT'' [0x78, 2, 7],
                    Chunk ''IEND'' []]
       \<and> 1 \<le> length (idat_chunks X0 (levelToZlib (CompressionLevel enc0))
                        (Fresh (gray_image 1 1 0xffff [7])))"
proof -
  let ?m = "Fresh (gray_image 1 1 0xffff [7])"
  let ?o = "[OptMetadata scenario_metadata]"
  let ?lvl = "levelToZlib (CompressionLevel enc0)"
  have "map_option fst (EncodeExtended X0 enc0 sink0 ?m ?o) = Some None"
    by code_simp
  then obtain w' where run: "EncodeExtended X0 enc0 sink0 ?m ?o = Some (None, w')"
    by (cases "EncodeExtended X0 enc0 sink0 ?m ?o") auto
  have ro: "read_opts ?o None = Inr (Some scenario_metadata)"
    by code_simp
  have ri: "\<not> raw_icc_alone (Some scenario_metadata)"
    by (simp add: raw_icc_alone_def scenario_metadata_def no_metadata_def)
  have cw: "compressor_writes X0 ?lvl ?m"
    by (simp add: compressor_writes_def X0_def)
  have ex: "ihdr_chunks X0 ?m @ metadata_chunks X0 ?lvl (Some scenario_metadata)
        @ plte_trns_chunks ?m @ hist_chunks (Some scenario_metadata) @ idat_chunks X0 ?lvl ?m
        @ [Chunk ''IEND'' []]
      = [Chunk ''IHDR'' [0, 0, 0, 1, 0, 0, 0, 1, 8, 0, 0, 0, 0],
         Chunk ''gAMA'' [0, 0, 0xB1, 0x8F],
         Chunk ''pHYs'' [0, 0, 0x0B, 0x13, 0, 0, 0x0B, 0x13, 1],
         Chunk ''tEXt'' [65, 0, 66],
         Chunk ''IDAT'' [0x78, 2, 7],
         Chunk ''IEND'' []]"
    by code_simp
  have s0: "sink_bytes sink0 = []"
    by (simp add: sink_bytes_def sink0_def)
  from chunk_emission_order [OF run ro ri cw]
  have "sink_bytes w' = sink_bytes sink0 @ pngHeader
          @ stream X0 (ihdr_chunks X0 ?m @ metadata_chunks X0 ?lvl (Some scenario_metadata)
              @ plte_trns_chunks ?m @ hist_chunks (Some scenario_metadata) @ idat_chunks X0 ?lvl ?m
              @ [Chunk ''IEND'' []])"
    and "1 \<le> length (idat_chunks X0 ?lvl ?m)"
    by simp_all
  then show ?thesis
    using run by (simp only: ex s0 append_Nil) blast
qed

end
